theory Spec2Isabelle
  imports Main "HOL-Library.Word"
begin

section \<open>The capability ledger: HypnosExecutor.sol\<close>

text \<open>
  The contract's value types are machine words: an \<open>address\<close> has 160 bits, a
  \<open>bytes4\<close> 32 bits, \<open>uint256\<close> and \<open>bytes32\<close> 256 bits. \<open>bytes\<close> is a list
  of octets and a Solidity \<open>string\<close> is a HOL string.
\<close>

type_synonym address = "160 word"
type_synonym bytes4 = "32 word"
type_synonym bytes32 = "256 word"
type_synonym uint256 = "256 word"
type_synonym bytes = "8 word list"

subsection \<open>Byte-level helpers of the language\<close>

text \<open>The big-endian octets of a word, \<open>n\<close> of them, as \<open>abi.encodePacked\<close> lays a
  value of \<open>n\<close> bytes out.\<close>

definition be_bytes :: "nat \<Rightarrow> 'a::len word \<Rightarrow> bytes" where
  "be_bytes n w = map (\<lambda>i. ucast (drop_bit (8 * i) w)) (rev [0..<n])"

text \<open>The word a run of octets denotes, big-endian; octets that do not fit fall off the
  top.\<close>

definition be_word :: "bytes \<Rightarrow> 'a::len word" where
  "be_word bs = foldl (\<lambda>a b. 256 * a + ucast b) 0 bs"

text \<open>\<open>bytes4(data)\<close> on a byte array: its first four bytes, padded with zeros on the
  right when the array is shorter.\<close>

definition bytes4_of :: "bytes \<Rightarrow> bytes4" where
  "bytes4_of data = be_word (take 4 (data @ replicate 4 0))"

text \<open>\<open>bytes4(h)\<close> on a \<open>bytes32\<close>: its four leading bytes.\<close>

definition bytes4_of_bytes32 :: "bytes32 \<Rightarrow> bytes4" where
  "bytes4_of_bytes32 h = ucast (drop_bit 224 h)"

definition string_bytes :: "string \<Rightarrow> bytes" where
  "string_bytes s = map (\<lambda>c. of_nat (of_char c)) s"

definition bytes_string :: "bytes \<Rightarrow> string" where
  "bytes_string bs = map (\<lambda>b. char_of (unat b)) bs"

subsection \<open>Storage\<close>

record Permission =
  target :: address
  selector :: bytes4
  maxValue :: uint256
  maxTokenAmount :: uint256
  tokenAddress :: address
  expiry :: uint256
  active :: bool

record ExecutionRecord =
  rec_executor :: address
  rec_target :: address
  rec_selector :: bytes4
  rec_value :: uint256
  rec_data :: bytes
  rec_timestamp :: uint256
  rec_permissionId :: bytes32
  rec_success :: bool
  rec_reason :: string

datatype event =
    PermissionGranted address bytes32 address bytes4 uint256 uint256 address uint256
  | PermissionRevoked address bytes32
  | PermissionUsed address bytes32 bytes32 address bytes4 uint256 bool
  | ExecutionRecorded bytes32 address address bytes4 uint256 bytes32 bool string

text \<open>
  The contract's storage, and the log of the events it has emitted so far. A Solidity
  mapping is total: a key never written reads as the zero value of its type, so
  \<open>permissions\<close> and \<open>executions\<close> are functions. \<open>roles\<close> is the role table the
  contract inherits from AccessControl; none of the functions below reads it.
\<close>

record ledger =
  permissions :: "address \<Rightarrow> bytes32 \<Rightarrow> Permission"
  userPermissions :: "address \<Rightarrow> bytes32 list"
  executions :: "bytes32 \<Rightarrow> ExecutionRecord"
  executionHistory :: "bytes32 list"
  roles :: "bytes32 \<Rightarrow> address \<Rightarrow> bool"
  events :: "event list"

definition zero_Permission :: Permission where
  "zero_Permission = \<lparr>target = 0, selector = 0, maxValue = 0, maxTokenAmount = 0,
     tokenAddress = 0, expiry = 0, active = False\<rparr>"

definition zero_ExecutionRecord :: ExecutionRecord where
  "zero_ExecutionRecord = \<lparr>rec_executor = 0, rec_target = 0, rec_selector = 0, rec_value = 0,
     rec_data = [], rec_timestamp = 0, rec_permissionId = 0, rec_success = False,
     rec_reason = []\<rparr>"

text \<open>The constructor: empty storage, and \<open>DEFAULT_ADMIN_ROLE\<close> (the zero role) for the
  deployer.\<close>

definition deploy :: "address \<Rightarrow> ledger" where
  "deploy deployer =
     \<lparr>permissions = (\<lambda>_ _. zero_Permission), userPermissions = (\<lambda>_. []),
      executions = (\<lambda>_. zero_ExecutionRecord), executionHistory = [],
      roles = (\<lambda>role account. role = 0 \<and> account = deployer), events = []\<rparr>"

text \<open>What a call sees of its transaction: \<open>msg.sender\<close>, \<open>block.timestamp\<close> and
  \<open>block.number\<close>.\<close>

record env =
  msg_sender :: address
  block_timestamp :: uint256
  block_number :: uint256

text \<open>
  Every \<open>require\<close> of the contract is one constructor, named after the failure mode it
  stands for; \<open>message\<close> is the revert string the source gives it. The last two are
  not \<open>require\<close>s of the contract and carry no string of its own: \<open>TransferFailed\<close>
  is SafeERC20 reverting, and \<open>AbiDecodeFailed\<close> is \<open>abi.decode\<close> reverting on data
  it refuses.
\<close>

datatype error =
    InvalidTarget | ExpiredGrant
  | NotFound | Inactive | TargetMismatch | Expired | SelectorMismatch | ValueExceeded
  | TokenMismatch | AmountExceeded
  | TransferFailed | AbiDecodeFailed

fun message :: "error \<Rightarrow> string" where
  "message InvalidTarget = ''HypnosExecutor: invalid target''"
| "message ExpiredGrant = ''HypnosExecutor: expired''"
| "message NotFound = ''HypnosExecutor: permission not found''"
| "message Inactive = ''HypnosExecutor: permission inactive''"
| "message TargetMismatch = ''HypnosExecutor: target mismatch''"
| "message Expired = ''HypnosExecutor: permission expired''"
| "message SelectorMismatch = ''HypnosExecutor: selector mismatch''"
| "message ValueExceeded = ''HypnosExecutor: value exceeds limit''"
| "message TokenMismatch = ''HypnosExecutor: token mismatch''"
| "message AmountExceeded = ''HypnosExecutor: amount exceeds limit''"
| "message TransferFailed = []"
| "message AbiDecodeFailed = []"

subsection \<open>grantPermission and revokePermission\<close>

text \<open>
  \<open>keccak256\<close> is a parameter of every function that hashes: the theorems hold for
  whatever function it is.
\<close>

definition grant_id ::
  "(bytes \<Rightarrow> bytes32) \<Rightarrow> env \<Rightarrow> address \<Rightarrow> address \<Rightarrow> bytes4 \<Rightarrow> uint256 \<Rightarrow> uint256 \<Rightarrow> address
     \<Rightarrow> uint256 \<Rightarrow> bytes32" where
  "grant_id keccak256 e executor tgt sel maxV maxT tok exp =
     keccak256 (be_bytes 20 executor @ be_bytes 20 tgt @ be_bytes 4 sel @ be_bytes 32 maxV
       @ be_bytes 32 maxT @ be_bytes 20 tok @ be_bytes 32 exp
       @ be_bytes 32 (block_timestamp e) @ be_bytes 32 (block_number e))"

definition grantPermission ::
  "(bytes \<Rightarrow> bytes32) \<Rightarrow> env \<Rightarrow> address \<Rightarrow> address \<Rightarrow> bytes4 \<Rightarrow> uint256 \<Rightarrow> uint256 \<Rightarrow> address
     \<Rightarrow> uint256 \<Rightarrow> ledger \<Rightarrow> error + bytes32 \<times> ledger" where
  "grantPermission keccak256 e executor tgt sel maxV maxT tok exp s =
     (if tgt = 0 then Inl InvalidTarget
      else if \<not> (exp = 0 \<or> exp > block_timestamp e) then Inl ExpiredGrant
      else
        let permissionId = grant_id keccak256 e executor tgt sel maxV maxT tok exp in
        Inr (permissionId,
          s\<lparr>permissions := (permissions s)(executor := (permissions s executor)(permissionId :=
               \<lparr>target = tgt, selector = sel, maxValue = maxV, maxTokenAmount = maxT,
                tokenAddress = tok, expiry = exp, active = True\<rparr>)),
            userPermissions := (userPermissions s)(executor := userPermissions s executor @ [permissionId]),
            events := events s @ [PermissionGranted executor permissionId tgt sel maxV maxT tok exp]\<rparr>))"

definition revokePermission :: "env \<Rightarrow> bytes32 \<Rightarrow> ledger \<Rightarrow> error + unit \<times> ledger" where
  "revokePermission e permissionId s =
     (let perm = permissions s (msg_sender e) permissionId in
      if target perm = 0 then Inl NotFound
      else
        Inr ((),
          s\<lparr>permissions := (permissions s)(msg_sender e := (permissions s (msg_sender e))(permissionId :=
               perm\<lparr>active := False\<rparr>)),
            events := events s @ [PermissionRevoked (msg_sender e) permissionId]\<rparr>))"

subsection \<open>The revert reason\<close>

text \<open>
  \<open>abi.decode(returnData, (string))\<close> works on the memory of the call frame. It is handed
  the length word \<open>len\<close> of the array and reads the bytes that follow it: \<open>buf\<close> are
  those that belong to the array, and \<open>mem i\<close> is the byte that memory holds \<open>i\<close> places
  past them. The decoder of Solidity 0.8 reads the offset of the string in the first
  word, refuses an offset above \<open>2^64 - 1\<close> or one that leaves the \<open>len\<close> bytes, reads
  the length of the string at the offset, refuses a length above \<open>2^64 - 1\<close> or a string
  that leaves the \<open>len\<close> bytes, and copies the string out. Positions are counted from
  the start of the content and compared as unsigned numbers, which is how the decoder's
  signed comparisons of addresses come out for any array that fits into memory; gas and
  the limit of the memory allocator are not modelled.
\<close>

definition mem_byte :: "(nat \<Rightarrow> 8 word) \<Rightarrow> bytes \<Rightarrow> nat \<Rightarrow> 8 word" where
  "mem_byte mem buf i = (if i < length buf then buf ! i else mem (i - length buf))"

definition mload :: "(nat \<Rightarrow> 8 word) \<Rightarrow> bytes \<Rightarrow> nat \<Rightarrow> uint256" where
  "mload mem buf i = be_word (map (mem_byte mem buf) [i..<i + 32])"

definition abi_decode_string :: "(nat \<Rightarrow> 8 word) \<Rightarrow> uint256 \<Rightarrow> bytes \<Rightarrow> error + string" where
  "abi_decode_string mem len buf =
     (if len < 32 then Inl AbiDecodeFailed
      else
        let offset = mload mem buf 0 in
        if offset > 0xffffffffffffffff then Inl AbiDecodeFailed
        else if \<not> offset + 31 < len then Inl AbiDecodeFailed
        else
          let n = mload mem buf (unat offset) in
          if n > 0xffffffffffffffff then Inl AbiDecodeFailed
          else if offset + 32 + n > len then Inl AbiDecodeFailed
          else Inr (bytes_string
            (map (mem_byte mem buf) [unat offset + 32..<unat offset + 32 + unat n])))"

text \<open>
  \<open>_extractRevertReason\<close>. The assembly block moves the array's pointer four bytes on
  before decoding, so the decoder takes as length word the 32 bytes that start four bytes
  into the array's memory image (the last 28 bytes of the true length, then the four
  selector bytes), and as content what follows them.
\<close>

definition extractRevertReason :: "(nat \<Rightarrow> 8 word) \<Rightarrow> bytes \<Rightarrow> error + string" where
  "extractRevertReason mem returnData =
     (if length returnData = 0 then Inr ''unknown error''
      else if length returnData \<ge> 68 \<and> returnData ! 0 = 0x08 \<and> returnData ! 1 = 0xc3
          \<and> returnData ! 2 = 0x79 \<and> returnData ! 3 = 0xa0 then
        let image = be_bytes 32 (of_nat (length returnData) :: uint256) @ returnData;
            moved = drop 4 image
        in abi_decode_string mem (be_word (take 32 moved)) (drop 32 moved)
      else Inr ''execution reverted'')"

subsection \<open>The external call\<close>

text \<open>
  What the called contract does is not the ledger's to decide, so the outcome of the
  external call is an input of the model: whether it succeeded, the bytes it returned,
  the memory past them (see above), and the calls it made back into the ledger while it
  ran. \<open>grantPermission\<close> and \<open>revokePermission\<close> carry no reentrancy guard and can be
  called back, by any sender, in the block of the outer call; a call back into one of the
  two \<open>nonReentrant\<close> functions reverts, the guard being held for the whole outer call.
  A call back that reverts leaves no trace.
\<close>

datatype reentry =
    ReGrant address address address bytes4 uint256 uint256 address uint256
  | ReRevoke address bytes32
  | ReExecute

record call_outcome =
  call_success :: bool
  call_returnData :: bytes
  call_memory :: "nat \<Rightarrow> 8 word"
  call_reentered :: "reentry list"

fun reenter :: "(bytes \<Rightarrow> bytes32) \<Rightarrow> env \<Rightarrow> ledger \<Rightarrow> reentry \<Rightarrow> ledger" where
  "reenter keccak256 e s (ReGrant sender executor tgt sel maxV maxT tok exp) =
     (case grantPermission keccak256 (e\<lparr>msg_sender := sender\<rparr>) executor tgt sel maxV maxT tok exp s of
        Inl _ \<Rightarrow> s | Inr (_, s') \<Rightarrow> s')"
| "reenter keccak256 e s (ReRevoke sender permissionId) =
     (case revokePermission (e\<lparr>msg_sender := sender\<rparr>) permissionId s of
        Inl _ \<Rightarrow> s | Inr (_, s') \<Rightarrow> s')"
| "reenter keccak256 e s ReExecute = s"

subsection \<open>executeWithPermission and executeTokenTransfer\<close>

text \<open>
  Both functions are \<open>nonReentrant\<close>. A call from outside finds the guard free, takes it
  and gives it back when it returns or reverts, so the guard shows only in \<open>reenter\<close>
  above, where it refuses the calls back.
\<close>

definition execution_id ::
  "(bytes \<Rightarrow> bytes32) \<Rightarrow> env \<Rightarrow> address \<Rightarrow> bytes \<Rightarrow> uint256 \<Rightarrow> bytes32" where
  "execution_id keccak256 e tgt data val =
     keccak256 (be_bytes 20 (msg_sender e) @ be_bytes 20 tgt @ data @ be_bytes 32 val
       @ be_bytes 32 (block_timestamp e) @ be_bytes 32 (block_number e))"

definition executeWithPermission ::
  "(bytes \<Rightarrow> bytes32) \<Rightarrow> env \<Rightarrow> bytes32 \<Rightarrow> address \<Rightarrow> bytes \<Rightarrow> uint256 \<Rightarrow> call_outcome \<Rightarrow> ledger
     \<Rightarrow> error + (bool \<times> bytes) \<times> ledger" where
  "executeWithPermission keccak256 e permissionId tgt data val out s =
     (let perm = permissions s (msg_sender e) permissionId in
      if target perm = 0 then Inl NotFound
      else if \<not> active perm then Inl Inactive
      else if target perm \<noteq> tgt then Inl TargetMismatch
      else if \<not> (expiry perm = 0 \<or> expiry perm \<ge> block_timestamp e) then Inl Expired
      else
        let sel = bytes4_of data in
        if selector perm \<noteq> 0 \<and> selector perm \<noteq> sel then Inl SelectorMismatch
        else if \<not> val \<le> maxValue perm then Inl ValueExceeded
        else
          let executionId = execution_id keccak256 e tgt data val;
              success = call_success out;
              returnData = call_returnData out;
              s1 = (if success then foldl (reenter keccak256 e) s (call_reentered out) else s)
          in
          case (if success then Inr ''success''
                else extractRevertReason (call_memory out) returnData) of
            Inl err \<Rightarrow> Inl err
          | Inr reason \<Rightarrow>
              Inr ((success, returnData),
                s1\<lparr>executions := (executions s1)(executionId :=
                     \<lparr>rec_executor = msg_sender e, rec_target = tgt, rec_selector = sel,
                      rec_value = val, rec_data = data, rec_timestamp = block_timestamp e,
                      rec_permissionId = permissionId, rec_success = success,
                      rec_reason = reason\<rparr>),
                   executionHistory := executionHistory s1 @ [executionId],
                   events := events s1 @
                     [ExecutionRecorded executionId (msg_sender e) tgt sel val permissionId success reason,
                      PermissionUsed (msg_sender e) permissionId executionId tgt sel val success]\<rparr>))"

text \<open>
  \<open>executeTokenTransfer\<close>. \<open>safeTransferFrom\<close> reverts unless the token accepts the
  transfer, which is what \<open>call_success\<close> says here; the selector stored is
  \<open>bytes4(keccak256("transfer(address,uint256)"))\<close>, and the data
  \<open>abi.encodeWithSignature("transfer(address,uint256)", to, amount)\<close>.
\<close>

definition transfer_selector :: "(bytes \<Rightarrow> bytes32) \<Rightarrow> bytes4" where
  "transfer_selector keccak256 =
     bytes4_of_bytes32 (keccak256 (string_bytes ''transfer(address,uint256)''))"

definition executeTokenTransfer ::
  "(bytes \<Rightarrow> bytes32) \<Rightarrow> env \<Rightarrow> bytes32 \<Rightarrow> address \<Rightarrow> address \<Rightarrow> uint256 \<Rightarrow> call_outcome \<Rightarrow> ledger
     \<Rightarrow> error + bool \<times> ledger" where
  "executeTokenTransfer keccak256 e permissionId tok to amount out s =
     (let perm = permissions s (msg_sender e) permissionId in
      if target perm = 0 then Inl NotFound
      else if \<not> active perm then Inl Inactive
      else if tokenAddress perm \<noteq> tok then Inl TokenMismatch
      else if \<not> amount \<le> maxTokenAmount perm then Inl AmountExceeded
      else if \<not> (expiry perm = 0 \<or> expiry perm \<ge> block_timestamp e) then Inl Expired
      else
        let executionId = keccak256 (be_bytes 20 (msg_sender e) @ be_bytes 20 tok @ be_bytes 20 to
              @ be_bytes 32 amount @ be_bytes 32 (block_timestamp e))
        in
        if \<not> call_success out then Inl TransferFailed
        else
          let s1 = foldl (reenter keccak256 e) s (call_reentered out);
              sel = transfer_selector keccak256
          in
          Inr (True,
            s1\<lparr>executions := (executions s1)(executionId :=
                 \<lparr>rec_executor = msg_sender e, rec_target = tok, rec_selector = sel,
                  rec_value = 0,
                  rec_data = be_bytes 4 sel @ be_bytes 32 (ucast to :: uint256) @ be_bytes 32 amount,
                  rec_timestamp = block_timestamp e, rec_permissionId = permissionId,
                  rec_success = True, rec_reason = ''success''\<rparr>),
               executionHistory := executionHistory s1 @ [executionId],
               events := events s1 @
                 [ExecutionRecorded executionId (msg_sender e) tok sel 0 permissionId True ''success'',
                  PermissionUsed (msg_sender e) permissionId executionId tok sel amount True]\<rparr>))"

subsection \<open>Transactions\<close>

text \<open>
  A call of one of the four state-changing functions, with its transaction environment.
  A call that reverts leaves the storage and the log as they were.
\<close>

datatype call =
    GrantPermission address address bytes4 uint256 uint256 address uint256
  | RevokePermission bytes32
  | ExecuteWithPermission bytes32 address bytes uint256 call_outcome
  | ExecuteTokenTransfer bytes32 address address uint256 call_outcome

definition after :: "error + 'a \<times> ledger \<Rightarrow> ledger \<Rightarrow> ledger" where
  "after r s = (case r of Inl _ \<Rightarrow> s | Inr (_, s') \<Rightarrow> s')"

fun transact :: "(bytes \<Rightarrow> bytes32) \<Rightarrow> ledger \<Rightarrow> env \<times> call \<Rightarrow> ledger" where
  "transact keccak256 s (e, GrantPermission executor tgt sel maxV maxT tok exp) =
     after (grantPermission keccak256 e executor tgt sel maxV maxT tok exp s) s"
| "transact keccak256 s (e, RevokePermission permissionId) =
     after (revokePermission e permissionId s) s"
| "transact keccak256 s (e, ExecuteWithPermission permissionId tgt data val out) =
     after (executeWithPermission keccak256 e permissionId tgt data val out s) s"
| "transact keccak256 s (e, ExecuteTokenTransfer permissionId tok to amount out) =
     after (executeTokenTransfer keccak256 e permissionId tok to amount out s) s"

definition run :: "(bytes \<Rightarrow> bytes32) \<Rightarrow> ledger \<Rightarrow> (env \<times> call) list \<Rightarrow> ledger" where
  "run keccak256 s calls = foldl (transact keccak256) s calls"

section \<open>The event reconciler: the indexer's handlers\<close>

text \<open>
  The repository holds two sets of handlers for the ledger's four events: the Envio
  handlers registered on \<open>HypnosExecutor.<Event>.handler\<close>, and the handlers
  \<open>handlePermissionGranted\<close>, \<open>handlePermissionRevoked\<close>, \<open>handlePermissionUsed\<close> and
  \<open>handleExecutionRecorded\<close> that \<open>handleHypnosExecutor\<close> routes to by event name. Both
  are modelled, each on the store it writes.

  An event reaches a handler decoded: addresses, hashes and selectors as strings, numbers
  as integers, and with it the hash of its transaction, its index in the log, and the
  timestamp and number of its block.
\<close>

record log_meta =
  transaction_hash :: string
  logIndex :: nat
  block_ts :: int
  block_no :: int

datatype log_event =
    LogPermissionGranted string string string string int int string int
  | LogPermissionRevoked string string
  | LogPermissionUsed string string string string string int bool
  | LogExecutionRecorded string string string string int string bool string

subsection \<open>Strings of the host language\<close>

text \<open>\<open>toLowerCase\<close> on the characters an address holds; \<open>toString\<close> of an index.\<close>

definition toLowerCase :: "string \<Rightarrow> string" where
  "toLowerCase s =
     map (\<lambda>c. if (65 :: nat) \<le> of_char c \<and> of_char c \<le> (90 :: nat)
              then char_of (of_char c + (32 :: nat)) else c) s"

function toString :: "nat \<Rightarrow> string" where
  "toString n =
     (if n < 10 then [char_of (48 + n)] else toString (n div 10) @ [char_of (48 + n mod 10)])"
  by pat_completeness auto
termination
  by (relation "measure id") auto

text \<open>The key of an audit row: the transaction's hash, a dash, the index in the log.\<close>

definition event_id :: "log_meta \<Rightarrow> string" where
  "event_id m = transaction_hash m @ ''-'' @ toString (logIndex m)"

subsection \<open>The Envio handlers\<close>

record Permission_entity =
  p_user :: string
  p_target :: string
  p_selector :: string
  p_maxValue :: int
  p_maxTokenAmount :: int
  p_tokenAddress :: string
  p_expiry :: int
  p_active :: bool
  p_grantedAt :: int
  p_grantedAtBlock :: int
  p_revokedAt :: "int option"
  p_revokedAtBlock :: "int option"

record Execution_entity =
  x_executor :: string
  x_target :: string
  x_selector :: string
  x_value :: int
  x_data :: string
  x_timestamp :: int
  x_blockNumber :: int
  x_transactionHash :: string
  x_permission_id :: string
  x_permissionId :: string
  x_success :: bool
  x_reason :: string

record PermissionGrantedEvent_entity =
  g_user :: string
  g_permissionId :: string
  g_target :: string
  g_selector :: string
  g_maxValue :: int
  g_maxTokenAmount :: int
  g_tokenAddress :: string
  g_expiry :: int
  g_timestamp :: int
  g_blockNumber :: int
  g_transactionHash :: string

record PermissionRevokedEvent_entity =
  r_user :: string
  r_permissionId :: string
  r_timestamp :: int
  r_blockNumber :: int
  r_transactionHash :: string

record PermissionUsedEvent_entity =
  u_user :: string
  u_permissionId :: string
  u_executionId :: string
  u_target :: string
  u_selector :: string
  u_value :: int
  u_success :: bool
  u_timestamp :: int
  u_blockNumber :: int
  u_transactionHash :: string

text \<open>
  The handler context: one table per entity type. A row is stored under its \<open>id\<close>, which
  is the key of the table and not a field of the row. \<open>context.T.set(row)\<close> stores the row
  under its id, in place of what was there; \<open>context.T.get(id)\<close> reads it.
  \<open>context.log.info\<close> writes a log line and leaves the tables alone, so it is left out.
\<close>

record handler_context =
  ctx_Permission :: "string \<rightharpoonup> Permission_entity"
  ctx_Execution :: "string \<rightharpoonup> Execution_entity"
  ctx_PermissionGrantedEvent :: "string \<rightharpoonup> PermissionGrantedEvent_entity"
  ctx_PermissionRevokedEvent :: "string \<rightharpoonup> PermissionRevokedEvent_entity"
  ctx_PermissionUsedEvent :: "string \<rightharpoonup> PermissionUsedEvent_entity"

definition PermissionGranted_handler ::
  "log_meta \<Rightarrow> string \<Rightarrow> string \<Rightarrow> string \<Rightarrow> string \<Rightarrow> int \<Rightarrow> int \<Rightarrow> string \<Rightarrow> int \<Rightarrow> handler_context
     \<Rightarrow> handler_context" where
  "PermissionGranted_handler m user permissionId tgt sel maxV maxT tok exp ctx =
     (let ident = permissionId;
          permission = \<lparr>p_user = toLowerCase user, p_target = toLowerCase tgt,
            p_selector = sel, p_maxValue = maxV, p_maxTokenAmount = maxT,
            p_tokenAddress = toLowerCase tok, p_expiry = exp, p_active = True,
            p_grantedAt = block_ts m, p_grantedAtBlock = block_no m,
            p_revokedAt = None, p_revokedAtBlock = None\<rparr>;
          ctx1 = ctx\<lparr>ctx_Permission := (ctx_Permission ctx)(ident \<mapsto> permission)\<rparr>;
          eventId = event_id m;
          grantedEvent = \<lparr>g_user = toLowerCase user, g_permissionId = ident,
            g_target = toLowerCase tgt, g_selector = sel, g_maxValue = maxV,
            g_maxTokenAmount = maxT, g_tokenAddress = toLowerCase tok, g_expiry = exp,
            g_timestamp = block_ts m, g_blockNumber = block_no m,
            g_transactionHash = transaction_hash m\<rparr>
      in ctx1\<lparr>ctx_PermissionGrantedEvent := (ctx_PermissionGrantedEvent ctx1)(eventId \<mapsto> grantedEvent)\<rparr>)"

definition PermissionRevoked_handler :: "log_meta \<Rightarrow> string \<Rightarrow> string \<Rightarrow> handler_context \<Rightarrow> handler_context" where
  "PermissionRevoked_handler m user permissionId ctx =
     (let ident = permissionId;
          ctx1 = (case ctx_Permission ctx ident of
                    None \<Rightarrow> ctx
                  | Some existingPermission \<Rightarrow>
                      ctx\<lparr>ctx_Permission := (ctx_Permission ctx)(ident \<mapsto>
                        existingPermission\<lparr>p_active := False, p_revokedAt := Some (block_ts m),
                          p_revokedAtBlock := Some (block_no m)\<rparr>)\<rparr>);
          eventId = event_id m;
          revokedEvent = \<lparr>r_user = toLowerCase user, r_permissionId = ident,
            r_timestamp = block_ts m, r_blockNumber = block_no m,
            r_transactionHash = transaction_hash m\<rparr>
      in ctx1\<lparr>ctx_PermissionRevokedEvent := (ctx_PermissionRevokedEvent ctx1)(eventId \<mapsto> revokedEvent)\<rparr>)"

definition PermissionUsed_handler ::
  "log_meta \<Rightarrow> string \<Rightarrow> string \<Rightarrow> string \<Rightarrow> string \<Rightarrow> string \<Rightarrow> int \<Rightarrow> bool \<Rightarrow> handler_context \<Rightarrow> handler_context" where
  "PermissionUsed_handler m user permissionId executionId tgt sel val success ctx =
     (let eventId = event_id m;
          usedEvent = \<lparr>u_user = toLowerCase user, u_permissionId = permissionId,
            u_executionId = executionId, u_target = toLowerCase tgt, u_selector = sel,
            u_value = val, u_success = success, u_timestamp = block_ts m,
            u_blockNumber = block_no m, u_transactionHash = transaction_hash m\<rparr>
      in ctx\<lparr>ctx_PermissionUsedEvent := (ctx_PermissionUsedEvent ctx)(eventId \<mapsto> usedEvent)\<rparr>)"

definition ExecutionRecorded_handler ::
  "log_meta \<Rightarrow> string \<Rightarrow> string \<Rightarrow> string \<Rightarrow> string \<Rightarrow> int \<Rightarrow> string \<Rightarrow> bool \<Rightarrow> string \<Rightarrow> handler_context
     \<Rightarrow> handler_context" where
  "ExecutionRecorded_handler m executionId executor tgt sel val permissionId success reason ctx =
     (let ident = executionId;
          execution = \<lparr>x_executor = toLowerCase executor, x_target = toLowerCase tgt,
            x_selector = sel, x_value = val, x_data = [], x_timestamp = block_ts m,
            x_blockNumber = block_no m, x_transactionHash = transaction_hash m,
            x_permission_id = permissionId, x_permissionId = permissionId,
            x_success = success, x_reason = reason\<rparr>
      in ctx\<lparr>ctx_Execution := (ctx_Execution ctx)(ident \<mapsto> execution)\<rparr>)"

text \<open>Each event goes to the handler registered for it.\<close>

fun envio_handle :: "handler_context \<Rightarrow> log_meta \<times> log_event \<Rightarrow> handler_context" where
  "envio_handle ctx (m, LogPermissionGranted user permissionId tgt sel maxV maxT tok exp) =
     PermissionGranted_handler m user permissionId tgt sel maxV maxT tok exp ctx"
| "envio_handle ctx (m, LogPermissionRevoked user permissionId) =
     PermissionRevoked_handler m user permissionId ctx"
| "envio_handle ctx (m, LogPermissionUsed user permissionId executionId tgt sel val success) =
     PermissionUsed_handler m user permissionId executionId tgt sel val success ctx"
| "envio_handle ctx (m, LogExecutionRecorded executionId executor tgt sel val permissionId success reason) =
     ExecutionRecorded_handler m executionId executor tgt sel val permissionId success reason ctx"

definition envio_replay :: "handler_context \<Rightarrow> (log_meta \<times> log_event) list \<Rightarrow> handler_context" where
  "envio_replay ctx evs = foldl envio_handle ctx evs"

definition empty_context :: handler_context where
  "empty_context = \<lparr>ctx_Permission = Map.empty, ctx_Execution = Map.empty,
     ctx_PermissionGrantedEvent = Map.empty, ctx_PermissionRevokedEvent = Map.empty,
     ctx_PermissionUsedEvent = Map.empty\<rparr>"

subsection \<open>The handlers behind handleHypnosExecutor\<close>

text \<open>
  These handlers read the parameters of the event by position and set only some fields
  of the entities they write; the rows below hold the fields they set, and the \<open>id\<close> of
  a row is its key in the table. \<open>new T(id)\<close> followed by \<open>save()\<close> stores the entity
  under its id, in place of what was there; \<open>T.load(id)\<close> reads it, and gives \<open>null\<close>
  when there is none.
\<close>

record Permission_row =
  gp_user :: "string option"
  gp_active :: "bool option"
  gp_grantedAt :: "int option"
  gp_grantedAtBlock :: "int option"
  gp_revokedAt :: "int option"
  gp_revokedAtBlock :: "int option"

record Execution_row =
  gx_executor :: string
  gx_permission :: string
  gx_permissionId :: string
  gx_timestamp :: int
  gx_blockNumber :: int
  gx_transactionHash :: string

record PermissionEvent_row =
  ge_user :: string
  ge_permissionId :: string
  ge_timestamp :: int
  ge_blockNumber :: int
  ge_transactionHash :: string

record PermissionUsedEvent_row =
  gu_user :: string
  gu_permissionId :: string
  gu_executionId :: string
  gu_timestamp :: int
  gu_blockNumber :: int
  gu_transactionHash :: string

record store =
  st_Permission :: "string \<rightharpoonup> Permission_row"
  st_Execution :: "string \<rightharpoonup> Execution_row"
  st_PermissionGrantedEvent :: "string \<rightharpoonup> PermissionEvent_row"
  st_PermissionRevokedEvent :: "string \<rightharpoonup> PermissionEvent_row"
  st_PermissionUsedEvent :: "string \<rightharpoonup> PermissionUsedEvent_row"

definition handlePermissionGranted :: "log_meta \<Rightarrow> string \<Rightarrow> string \<Rightarrow> store \<Rightarrow> store" where
  "handlePermissionGranted m user permissionId st =
     (let permission = \<lparr>gp_user = Some user, gp_active = Some True,
            gp_grantedAt = Some (block_ts m), gp_grantedAtBlock = Some (block_no m),
            gp_revokedAt = None, gp_revokedAtBlock = None\<rparr>;
          st1 = st\<lparr>st_Permission := (st_Permission st)(permissionId \<mapsto> permission)\<rparr>;
          eventEntity = \<lparr>ge_user = user, ge_permissionId = permissionId,
            ge_timestamp = block_ts m, ge_blockNumber = block_no m,
            ge_transactionHash = transaction_hash m\<rparr>
      in st1\<lparr>st_PermissionGrantedEvent := (st_PermissionGrantedEvent st1)(event_id m \<mapsto> eventEntity)\<rparr>)"

definition handlePermissionRevoked :: "log_meta \<Rightarrow> string \<Rightarrow> string \<Rightarrow> store \<Rightarrow> store" where
  "handlePermissionRevoked m user permissionId st =
     (let st1 = (case st_Permission st permissionId of
                   None \<Rightarrow> st
                 | Some permission \<Rightarrow>
                     st\<lparr>st_Permission := (st_Permission st)(permissionId \<mapsto>
                       permission\<lparr>gp_active := Some False, gp_revokedAt := Some (block_ts m),
                         gp_revokedAtBlock := Some (block_no m)\<rparr>)\<rparr>);
          eventEntity = \<lparr>ge_user = user, ge_permissionId = permissionId,
            ge_timestamp = block_ts m, ge_blockNumber = block_no m,
            ge_transactionHash = transaction_hash m\<rparr>
      in st1\<lparr>st_PermissionRevokedEvent := (st_PermissionRevokedEvent st1)(event_id m \<mapsto> eventEntity)\<rparr>)"

definition handlePermissionUsed :: "log_meta \<Rightarrow> string \<Rightarrow> string \<Rightarrow> string \<Rightarrow> store \<Rightarrow> store" where
  "handlePermissionUsed m user permissionId executionId st =
     (let eventEntity = \<lparr>gu_user = user, gu_permissionId = permissionId,
            gu_executionId = executionId, gu_timestamp = block_ts m, gu_blockNumber = block_no m,
            gu_transactionHash = transaction_hash m\<rparr>
      in st\<lparr>st_PermissionUsedEvent := (st_PermissionUsedEvent st)(event_id m \<mapsto> eventEntity)\<rparr>)"

definition handleExecutionRecorded :: "log_meta \<Rightarrow> string \<Rightarrow> string \<Rightarrow> string \<Rightarrow> store \<Rightarrow> store" where
  "handleExecutionRecorded m executionId executor permissionId st =
     (case st_Permission st permissionId of
        None \<Rightarrow> st
      | Some permission \<Rightarrow>
          (let execution = \<lparr>gx_executor = executor,
                 gx_permission = permissionId, gx_permissionId = permissionId,
                 gx_timestamp = block_ts m, gx_blockNumber = block_no m,
                 gx_transactionHash = transaction_hash m\<rparr>
           in st\<lparr>st_Execution := (st_Execution st)(executionId \<mapsto> execution)\<rparr>))"

text \<open>\<open>handleHypnosExecutor\<close> routes an event to its handler by its name.\<close>

fun handleHypnosExecutor :: "store \<Rightarrow> log_meta \<times> log_event \<Rightarrow> store" where
  "handleHypnosExecutor st (m, LogPermissionGranted user permissionId tgt sel maxV maxT tok exp) =
     handlePermissionGranted m user permissionId st"
| "handleHypnosExecutor st (m, LogPermissionRevoked user permissionId) =
     handlePermissionRevoked m user permissionId st"
| "handleHypnosExecutor st (m, LogPermissionUsed user permissionId executionId tgt sel val success) =
     handlePermissionUsed m user permissionId executionId st"
| "handleHypnosExecutor st (m, LogExecutionRecorded executionId executor tgt sel val permissionId success reason) =
     handleExecutionRecorded m executionId executor permissionId st"

definition replay :: "store \<Rightarrow> (log_meta \<times> log_event) list \<Rightarrow> store" where
  "replay st evs = foldl handleHypnosExecutor st evs"

definition empty_store :: store where
  "empty_store = \<lparr>st_Permission = Map.empty, st_Execution = Map.empty,
     st_PermissionGrantedEvent = Map.empty, st_PermissionRevokedEvent = Map.empty,
     st_PermissionUsedEvent = Map.empty\<rparr>"

section \<open>Definitions the statements use\<close>

subsection \<open>The order of the gate's checks, in the specification's words\<close>

text \<open>
  The specification lists the preconditions of a gated execution in order: the capability
  exists for the caller, is active, names the call's target, has not expired (expiry 0,
  or not before now), allows the payload's selector (wildcard or equal), and allows the
  value. \<open>spec_first_failure\<close> is the first of them that a call violates.
\<close>

definition spec_first_failure ::
  "Permission \<Rightarrow> address \<Rightarrow> uint256 \<Rightarrow> bytes \<Rightarrow> uint256 \<Rightarrow> error option" where
  "spec_first_failure perm tgt now data val =
     (if target perm = 0 then Some NotFound
      else if \<not> active perm then Some Inactive
      else if target perm \<noteq> tgt then Some TargetMismatch
      else if \<not> (expiry perm = 0 \<or> expiry perm \<ge> now) then Some Expired
      else if \<not> (selector perm = 0 \<or> selector perm = bytes4_of data) then Some SelectorMismatch
      else if \<not> val \<le> maxValue perm then Some ValueExceeded
      else None)"

subsection \<open>A well-formed revert reason\<close>

text \<open>
  The return data of \<open>revert(s)\<close>, which is \<open>abi.encodeWithSignature("Error(string)", s)\<close>:
  the selector, the offset 32 of the string, its length, and its bytes padded with zeros
  to a multiple of 32.
\<close>

definition abi_encode_Error :: "string \<Rightarrow> bytes" where
  "abi_encode_Error s =
     [0x08, 0xc3, 0x79, 0xa0] @ be_bytes 32 (32 :: uint256) @ be_bytes 32 (of_nat (length s) :: uint256)
       @ string_bytes s @ replicate ((32 - length s mod 32) mod 32) 0"

subsection \<open>Grants that write a given capability\<close>

text \<open>
  \<open>regrants keccak256 a pid c\<close>: the transaction \<open>c\<close> calls \<open>grantPermission\<close>, itself
  or from the contract it calls, for the executor \<open>a\<close> with arguments and a block that
  give the identifier \<open>pid\<close>.
\<close>

fun reentry_regrants :: "(bytes \<Rightarrow> bytes32) \<Rightarrow> env \<Rightarrow> address \<Rightarrow> bytes32 \<Rightarrow> reentry \<Rightarrow> bool" where
  "reentry_regrants keccak256 e a pid (ReGrant sender executor tgt sel maxV maxT tok exp) =
     (executor = a \<and> grant_id keccak256 e executor tgt sel maxV maxT tok exp = pid)"
| "reentry_regrants keccak256 e a pid (ReRevoke sender permissionId) = False"
| "reentry_regrants keccak256 e a pid ReExecute = False"

fun regrants :: "(bytes \<Rightarrow> bytes32) \<Rightarrow> address \<Rightarrow> bytes32 \<Rightarrow> env \<times> call \<Rightarrow> bool" where
  "regrants keccak256 a pid (e, GrantPermission executor tgt sel maxV maxT tok exp) =
     (executor = a \<and> grant_id keccak256 e executor tgt sel maxV maxT tok exp = pid)"
| "regrants keccak256 a pid (e, RevokePermission permissionId) = False"
| "regrants keccak256 a pid (e, ExecuteWithPermission permissionId tgt data val out) =
     list_ex (reentry_regrants keccak256 e a pid) (call_reentered out)"
| "regrants keccak256 a pid (e, ExecuteTokenTransfer permissionId tok to amount out) =
     list_ex (reentry_regrants keccak256 e a pid) (call_reentered out)"

text \<open>A stored capability \<open>q\<close> is what \<open>p\<close> was, or \<open>p\<close> revoked.\<close>

definition same_or_revoked :: "Permission \<Rightarrow> Permission \<Rightarrow> bool" where
  "same_or_revoked p q = (q = p \<or> q = p\<lparr>active := False\<rparr>)"

subsection \<open>The events of an execution\<close>

fun is_execution_event :: "event \<Rightarrow> bool" where
  "is_execution_event (ExecutionRecorded executionId executor tgt sel val permissionId success reason) = True"
| "is_execution_event (PermissionUsed user permissionId executionId tgt sel val success) = True"
| "is_execution_event _ = False"

subsection \<open>Event streams\<close>

text \<open>
  A stream with events delivered again in place: \<open>(n, ev)\<close> stands for \<open>ev\<close> delivered
  \<open>n + 1\<close> times in a row.
\<close>

definition redelivered :: "(nat \<times> 'a) list \<Rightarrow> 'a list" where
  "redelivered nevs = concat (map (\<lambda>(n, ev). replicate (Suc n) ev) nevs)"

text \<open>
  \<open>causal known evs\<close>: every \<open>ExecutionRecorded\<close> of the stream names a permission that
  is among the \<open>known\<close> ones or was granted earlier in the stream.
\<close>

fun causal :: "string set \<Rightarrow> (log_meta \<times> log_event) list \<Rightarrow> bool" where
  "causal known [] = True"
| "causal known ((m, LogPermissionGranted user permissionId tgt sel maxV maxT tok exp) # evs) =
     causal (insert permissionId known) evs"
| "causal known ((m, LogExecutionRecorded executionId executor tgt sel val permissionId success reason) # evs) =
     (permissionId \<in> known \<and> causal known evs)"
| "causal known (ev # evs) = causal known evs"

text \<open>
  What \<open>handleHypnosExecutor\<close> does when the permission of an \<open>ExecutionRecorded\<close> is
  found: it is \<open>handleHypnosExecutor\<close> but for the lookup. The proofs compare the
  handlers with it.
\<close>

fun handle_linked :: "store \<Rightarrow> log_meta \<times> log_event \<Rightarrow> store" where
  "handle_linked st (m, LogExecutionRecorded executionId executor tgt sel val permissionId success reason) =
     st\<lparr>st_Execution := (st_Execution st)(executionId \<mapsto>
       \<lparr>gx_executor = executor, gx_permission = permissionId, gx_permissionId = permissionId,
        gx_timestamp = block_ts m, gx_blockNumber = block_no m,
        gx_transactionHash = transaction_hash m\<rparr>)\<rparr>"
| "handle_linked st ev = handleHypnosExecutor st ev"

subsection \<open>Sample inputs\<close>

text \<open>
  The inputs at which the theorems below are instantiated. \<open>sample_hash\<close> stands in for
  \<open>keccak256\<close> there. The sample grant is made by account 9, which is neither the
  deployer (1) nor the executor (\<open>0xA\<close>) nor the target (\<open>0xD0\<close>), at time 500: any
  selector, at most 100 wei, no token, expiry 1000. In the samples the block mined at
  time \<open>t\<close> has the number \<open>t\<close>.
\<close>

definition sample_hash :: "bytes \<Rightarrow> bytes32" where
  "sample_hash bs = be_word bs"

definition grant_env :: env where
  "grant_env = \<lparr>msg_sender = 9, block_timestamp = 500, block_number = 500\<rparr>"

definition sample_grant :: call where
  "sample_grant = GrantPermission 0xA 0xD0 0 100 0 0 1000"

definition sample_id :: bytes32 where
  "sample_id = grant_id sample_hash grant_env 0xA 0xD0 0 100 0 0 1000"

definition granted :: ledger where
  "granted = transact sample_hash (deploy 1) (grant_env, sample_grant)"

text \<open>The executor's transaction environment at time \<open>t\<close>.\<close>

definition at_time :: "uint256 \<Rightarrow> env" where
  "at_time t = \<lparr>msg_sender = 0xA, block_timestamp = t, block_number = t\<rparr>"

definition revoked :: ledger where
  "revoked = transact sample_hash granted (at_time 600, RevokePermission sample_id)"

text \<open>An external call that succeeds, returns nothing and calls nothing back; one that
  fails with the given return data.\<close>

definition call_ok :: call_outcome where
  "call_ok = \<lparr>call_success = True, call_returnData = [], call_memory = (\<lambda>_. 0), call_reentered = []\<rparr>"

definition call_failed :: "bytes \<Rightarrow> call_outcome" where
  "call_failed returnData =
     \<lparr>call_success = False, call_returnData = returnData, call_memory = (\<lambda>_. 0), call_reentered = []\<rparr>"

text \<open>Return data that starts with the selector of \<open>Error(string)\<close> and is 68 bytes
  long, but whose offset word is \<open>2^256 - 1\<close>.\<close>

definition bad_revert_data :: bytes where
  "bad_revert_data = [0x08, 0xc3, 0x79, 0xa0] @ replicate 32 0xff @ replicate 32 0"

text \<open>The return data of \<open>revert("hi")\<close>.\<close>

definition hello_revert_data :: bytes where
  "hello_revert_data = [0x08, 0xc3, 0x79, 0xa0] @ replicate 31 0 @ [0x20] @ replicate 31 0 @ [0x02]
      @ [0x68, 0x69] @ replicate 30 0"

text \<open>
  Transactions after a revocation: a grant to another executor, a second revocation, an
  execution whose callee calls back into the ledger, a token transfer, and a revocation
  by someone else.
\<close>

definition later_calls :: "(env \<times> call) list" where
  "later_calls =
     [(at_time 700\<lparr>msg_sender := 9\<rparr>, GrantPermission 0xB 0xD0 0 100 0 0 1000),
      (at_time 700, RevokePermission sample_id),
      (at_time 700, ExecuteWithPermission sample_id 0xD0 [] 50
         (call_ok\<lparr>call_reentered := [ReGrant 0xD0 0xB 0xD0 0 5 0 0 0, ReRevoke 0xA sample_id, ReExecute]\<rparr>)),
      (at_time 800, ExecuteTokenTransfer sample_id 0 0xC 0 call_ok),
      (at_time 800\<lparr>msg_sender := 0xB\<rparr>, RevokePermission sample_id)]"

text \<open>
  Four events as the indexer receives them: the grant of a permission, an execution under
  it, its use, and its revocation, in one transaction. \<open>ordered_stream\<close> has them in the
  ledger's order; \<open>disordered_stream\<close> has the execution before the grant.
\<close>

definition sample_meta :: "nat \<Rightarrow> log_meta" where
  "sample_meta n = \<lparr>transaction_hash = ''0xabc'', logIndex = n, block_ts = 500, block_no = 500\<rparr>"

definition granted_log :: "log_meta \<times> log_event" where
  "granted_log = (sample_meta 0,
     LogPermissionGranted ''0xA'' ''0x1d'' ''0xD0'' ''0x00000000'' 100 0 ''0x0'' 1000)"

definition recorded_log :: "log_meta \<times> log_event" where
  "recorded_log = (sample_meta 1,
     LogExecutionRecorded ''0xe1'' ''0xA'' ''0xD0'' ''0x00000000'' 50 ''0x1d'' True ''success'')"

definition used_log :: "log_meta \<times> log_event" where
  "used_log = (sample_meta 2,
     LogPermissionUsed ''0xA'' ''0x1d'' ''0xe1'' ''0xD0'' ''0x00000000'' 50 True)"

definition revoked_log :: "log_meta \<times> log_event" where
  "revoked_log = (sample_meta 3, LogPermissionRevoked ''0xA'' ''0x1d'')"

definition ordered_stream :: "(log_meta \<times> log_event) list" where
  "ordered_stream = [granted_log, recorded_log, used_log, revoked_log]"

definition disordered_stream :: "(log_meta \<times> log_event) list" where
  "disordered_stream = [recorded_log, granted_log]"

section \<open>The ledger: shared lemmas\<close>

lemma granted_state:
  "granted = \<lparr>permissions = (\<lambda>_ _. zero_Permission)(0xA := (\<lambda>_. zero_Permission)(sample_id :=
        \<lparr>target = 0xD0, selector = 0, maxValue = 100, maxTokenAmount = 0, tokenAddress = 0,
         expiry = 1000, active = True\<rparr>)),
      userPermissions = (\<lambda>_. [])(0xA := [sample_id]),
      executions = (\<lambda>_. zero_ExecutionRecord), executionHistory = [],
      roles = (\<lambda>role account. role = 0 \<and> account = 1),
      events = [PermissionGranted 0xA sample_id 0xD0 0 100 0 0 1000]\<rparr>"
  by (simp add: granted_def sample_grant_def grant_env_def sample_id_def grantPermission_def
      after_def deploy_def Let_def)

lemma granted_permission:
  "permissions granted 0xA sample_id = \<lparr>target = 0xD0, selector = 0, maxValue = 100,
     maxTokenAmount = 0, tokenAddress = 0, expiry = 1000, active = True\<rparr>"
  by (simp add: granted_state)

lemma revoked_state:
  "revoked = granted\<lparr>permissions := (permissions granted)(0xA := (permissions granted 0xA)(sample_id :=
        \<lparr>target = 0xD0, selector = 0, maxValue = 100, maxTokenAmount = 0, tokenAddress = 0,
         expiry = 1000, active = False\<rparr>)),
      events := [PermissionGranted 0xA sample_id 0xD0 0 100 0 0 1000, PermissionRevoked 0xA sample_id]\<rparr>"
  by (simp add: revoked_def at_time_def revokePermission_def after_def granted_state Let_def)

lemma revoked_permission:
  "permissions revoked 0xA sample_id = \<lparr>target = 0xD0, selector = 0, maxValue = 100,
     maxTokenAmount = 0, tokenAddress = 0, expiry = 1000, active = False\<rparr>"
  by (simp add: revoked_state)

lemma grant_id_sender [simp]:
  "grant_id k (e\<lparr>msg_sender := a\<rparr>) executor tgt sel maxV maxT tok exp
     = grant_id k e executor tgt sel maxV maxT tok exp"
  by (simp add: grant_id_def)

lemma abi_decode_string_Inl: "abi_decode_string mem len buf = Inl err \<Longrightarrow> err = AbiDecodeFailed"
  unfolding abi_decode_string_def Let_def by (simp split: if_splits)

lemma extractRevertReason_Inl: "extractRevertReason mem rd = Inl err \<Longrightarrow> err = AbiDecodeFailed"
  unfolding extractRevertReason_def Let_def
  by (simp split: if_splits add: abi_decode_string_Inl)

lemma executeWithPermission_pass:
  assumes "target (permissions s (msg_sender e) pid) \<noteq> 0"
    and "active (permissions s (msg_sender e) pid)"
    and "target (permissions s (msg_sender e) pid) = tgt"
    and "expiry (permissions s (msg_sender e) pid) = 0
          \<or> block_timestamp e \<le> expiry (permissions s (msg_sender e) pid)"
    and "selector (permissions s (msg_sender e) pid) = 0
          \<or> selector (permissions s (msg_sender e) pid) = bytes4_of data"
    and "val \<le> maxValue (permissions s (msg_sender e) pid)"
  shows "executeWithPermission k e pid tgt data val out s =
     (let executionId = execution_id k e tgt data val;
          sel = bytes4_of data;
          s1 = (if call_success out then foldl (reenter k e) s (call_reentered out) else s)
      in case (if call_success out then Inr ''success''
               else extractRevertReason (call_memory out) (call_returnData out)) of
           Inl err \<Rightarrow> Inl err
         | Inr reason \<Rightarrow>
             Inr ((call_success out, call_returnData out),
               s1\<lparr>executions := (executions s1)(executionId :=
                    \<lparr>rec_executor = msg_sender e, rec_target = tgt, rec_selector = sel,
                     rec_value = val, rec_data = data, rec_timestamp = block_timestamp e,
                     rec_permissionId = pid, rec_success = call_success out,
                     rec_reason = reason\<rparr>),
                  executionHistory := executionHistory s1 @ [executionId],
                  events := events s1 @
                    [ExecutionRecorded executionId (msg_sender e) tgt sel val pid (call_success out) reason,
                     PermissionUsed (msg_sender e) pid executionId tgt sel val (call_success out)]\<rparr>))"
proof -
  let ?perm = "permissions s (msg_sender e) pid"
  from assms(5) have sel: "(selector ?perm \<noteq> 0 \<and> selector ?perm \<noteq> bytes4_of data) = False"
    by blast
  show ?thesis
    unfolding executeWithPermission_def Let_def
    using assms(1,3) by (simp only: assms(2,4,6) sel if_False if_True simp_thms)
qed

lemma spec_first_failure_None:
  "spec_first_failure perm tgt now data val = None \<longleftrightarrow>
     target perm \<noteq> 0 \<and> active perm \<and> target perm = tgt \<and> (expiry perm = 0 \<or> now \<le> expiry perm)
     \<and> (selector perm = 0 \<or> selector perm = bytes4_of data) \<and> val \<le> maxValue perm"
  by (auto simp: spec_first_failure_def)

lemma exec_fails_first:
  "spec_first_failure (permissions s (msg_sender e) pid) tgt (block_timestamp e) data val = Some err
     \<Longrightarrow> executeWithPermission k e pid tgt data val out s = Inl err"
  by (auto simp: spec_first_failure_def executeWithPermission_def Let_def split: if_splits)

lemma exec_pass_error:
  assumes pass: "spec_first_failure (permissions s (msg_sender e) pid) tgt (block_timestamp e) data val = None"
    and failed: "executeWithPermission k e pid tgt data val out s = Inl err"
  shows "err = AbiDecodeFailed"
proof -
  from pass have checks: "target (permissions s (msg_sender e) pid) \<noteq> 0"
    "active (permissions s (msg_sender e) pid)"
    "target (permissions s (msg_sender e) pid) = tgt"
    "expiry (permissions s (msg_sender e) pid) = 0
          \<or> block_timestamp e \<le> expiry (permissions s (msg_sender e) pid)"
    "selector (permissions s (msg_sender e) pid) = 0
          \<or> selector (permissions s (msg_sender e) pid) = bytes4_of data"
    "val \<le> maxValue (permissions s (msg_sender e) pid)"
    unfolding spec_first_failure_None by blast+
  show ?thesis
  proof (cases "call_success out")
    case True
    with failed show ?thesis
      unfolding executeWithPermission_pass [OF checks] Let_def by simp
  next
    case False
    with failed have "extractRevertReason (call_memory out) (call_returnData out) = Inl err"
      unfolding executeWithPermission_pass [OF checks] Let_def by (simp split: sum.splits)
    then show ?thesis by (rule extractRevertReason_Inl)
  qed
qed

lemma same_or_revoked_refl: "same_or_revoked p p"
  by (simp add: same_or_revoked_def)

lemma same_or_revoked_trans:
  "same_or_revoked p q \<Longrightarrow> same_or_revoked q r \<Longrightarrow> same_or_revoked p r"
  by (auto simp: same_or_revoked_def)

lemma grantPermission_elsewhere:
  assumes "grantPermission k e executor tgt sel maxV maxT tok exp s = Inr (p, s')"
    and "\<not> (executor = a \<and> grant_id k e executor tgt sel maxV maxT tok exp = pid)"
  shows "permissions s' a pid = permissions s a pid"
  using assms by (auto simp: grantPermission_def Let_def split: if_splits)

lemma revokePermission_same_or_revoked:
  assumes "revokePermission e p s = Inr (u, s')"
  shows "same_or_revoked (permissions s a pid) (permissions s' a pid)"
  using assms by (auto simp: revokePermission_def Let_def same_or_revoked_def split: if_splits)

lemma reenter_same_or_revoked:
  assumes "\<not> reentry_regrants k e a pid r"
  shows "same_or_revoked (permissions s a pid) (permissions (reenter k e s r) a pid)"
proof (cases r)
  case (ReGrant sender executor tgt sel maxV maxT tok exp)
  with assms show ?thesis
    by (auto split: sum.splits dest!: grantPermission_elsewhere [where a = a and pid = pid]
        simp: same_or_revoked_refl)
next
  case (ReRevoke sender p)
  then show ?thesis
    by (auto split: sum.splits dest: revokePermission_same_or_revoked simp: same_or_revoked_refl)
next
  case ReExecute
  then show ?thesis by (simp add: same_or_revoked_refl)
qed

lemma reentered_same_or_revoked:
  "\<not> list_ex (reentry_regrants k e a pid) rs
     \<Longrightarrow> same_or_revoked (permissions s a pid) (permissions (foldl (reenter k e) s rs) a pid)"
proof (induction rs arbitrary: s)
  case Nil
  then show ?case by (simp add: same_or_revoked_refl)
next
  case (Cons r rs)
  then have "same_or_revoked (permissions s a pid) (permissions (reenter k e s r) a pid)"
    and "same_or_revoked (permissions (reenter k e s r) a pid)
           (permissions (foldl (reenter k e) (reenter k e s r) rs) a pid)"
    by (simp_all add: reenter_same_or_revoked)
  then show ?case
    by (simp add: same_or_revoked_trans)
qed

lemma executeWithPermission_permissions:
  assumes "executeWithPermission k e p tgt data val out s = Inr (r, s')"
  shows "permissions s' = permissions (foldl (reenter k e) s (call_reentered out)) \<or> permissions s' = permissions s"
  using assms unfolding executeWithPermission_def Let_def
  by (auto split: if_splits sum.splits)

lemma executeTokenTransfer_permissions:
  assumes "executeTokenTransfer k e p tok to amount out s = Inr (r, s')"
  shows "permissions s' = permissions (foldl (reenter k e) s (call_reentered out))"
  using assms unfolding executeTokenTransfer_def Let_def
  by (auto split: if_splits)

lemma transact_same_or_revoked:
  assumes "\<not> regrants k a pid c"
  shows "same_or_revoked (permissions s a pid) (permissions (transact k s c) a pid)"
proof (cases c)
  case (Pair e cl)
  show ?thesis
  proof (cases cl)
    case (GrantPermission executor tgt sel maxV maxT tok exp)
    with Pair assms show ?thesis
      by (auto simp: after_def same_or_revoked_refl split: sum.splits
          dest!: grantPermission_elsewhere [where a = a and pid = pid])
  next
    case (RevokePermission p)
    with Pair show ?thesis
      by (auto simp: after_def same_or_revoked_refl split: sum.splits
          dest: revokePermission_same_or_revoked)
  next
    case (ExecuteWithPermission p tgt data val out)
    with Pair assms have quiet: "\<not> list_ex (reentry_regrants k e a pid) (call_reentered out)"
      by simp
    show ?thesis
    proof (cases "executeWithPermission k e p tgt data val out s")
      case (Inl err)
      with Pair ExecuteWithPermission show ?thesis
        by (simp add: after_def same_or_revoked_refl)
    next
      case (Inr res)
      obtain r s' where res: "res = (r, s')" by (cases res)
      from executeWithPermission_permissions [OF Inr [unfolded res]] reentered_same_or_revoked [OF quiet, of s]
      have "same_or_revoked (permissions s a pid) (permissions s' a pid)"
        by (auto simp: same_or_revoked_refl)
      with Pair ExecuteWithPermission Inr res show ?thesis
        by (simp add: after_def)
    qed
  next
    case (ExecuteTokenTransfer p tok to amount out)
    with Pair assms have quiet: "\<not> list_ex (reentry_regrants k e a pid) (call_reentered out)"
      by simp
    show ?thesis
    proof (cases "executeTokenTransfer k e p tok to amount out s")
      case (Inl err)
      with Pair ExecuteTokenTransfer show ?thesis
        by (simp add: after_def same_or_revoked_refl)
    next
      case (Inr res)
      obtain r s' where res: "res = (r, s')" by (cases res)
      from executeTokenTransfer_permissions [OF Inr [unfolded res]] reentered_same_or_revoked [OF quiet, of s]
      have "same_or_revoked (permissions s a pid) (permissions s' a pid)"
        by simp
      with Pair ExecuteTokenTransfer Inr res show ?thesis
        by (simp add: after_def)
    qed
  qed
qed

lemma run_same_or_revoked:
  "\<forall>c \<in> set calls. \<not> regrants k a pid c
     \<Longrightarrow> same_or_revoked (permissions s a pid) (permissions (run k s calls) a pid)"
proof (induction calls arbitrary: s)
  case Nil
  then show ?case by (simp add: run_def same_or_revoked_refl)
next
  case (Cons c calls)
  then have "same_or_revoked (permissions s a pid) (permissions (transact k s c) a pid)"
    and "same_or_revoked (permissions (transact k s c) a pid)
           (permissions (run k (transact k s c) calls) a pid)"
    by (simp_all add: transact_same_or_revoked)
  then show ?case
    by (auto simp: run_def intro: same_or_revoked_trans)
qed

lemma bad_revert_data_refused: "extractRevertReason mem bad_revert_data = Inl AbiDecodeFailed"
  by code_simp

lemma hello_revert_data_decoded: "extractRevertReason mem hello_revert_data = Inr ''hi''"
  by code_simp

lemma extractRevertReason_empty: "extractRevertReason mem [] = Inr ''unknown error''"
  by (simp add: extractRevertReason_def)

lemma take4_nth:
  assumes "4 \<le> length rd"
  shows "take 4 rd = [rd ! 0, rd ! 1, rd ! 2, rd ! 3]"
  using assms by (auto simp: Suc_le_length_iff eval_nat_numeral)

lemma extractRevertReason_fallback:
  assumes "rd \<noteq> []" and "length rd < 68 \<or> take 4 rd \<noteq> [0x08, 0xc3, 0x79, 0xa0]"
  shows "extractRevertReason mem rd = Inr ''execution reverted''"
proof (cases "length rd < 68")
  case True
  with assms(1) show ?thesis by (simp add: extractRevertReason_def)
next
  case False
  with assms(2) have "[rd ! 0, rd ! 1, rd ! 2, rd ! 3] \<noteq> [0x08, 0xc3, 0x79, 0xa0]"
    by (simp add: take4_nth)
  with assms(1) show ?thesis by (auto simp: extractRevertReason_def)
qed

lemma reenter_executionHistory [simp]: "executionHistory (reenter k e s r) = executionHistory s"
  by (cases r) (auto simp: grantPermission_def revokePermission_def Let_def split: sum.splits if_splits)

lemma reenter_executions [simp]: "executions (reenter k e s r) = executions s"
  by (cases r) (auto simp: grantPermission_def revokePermission_def Let_def split: sum.splits if_splits)

lemma reentered_executionHistory [simp]:
  "executionHistory (foldl (reenter k e) s rs) = executionHistory s"
  by (induction rs arbitrary: s) simp_all

lemma reentered_executions [simp]:
  "executions (foldl (reenter k e) s rs) = executions s"
  by (induction rs arbitrary: s) simp_all

lemma reenter_events:
  "\<exists>evs. events (reenter k e s r) = events s @ evs \<and> filter is_execution_event evs = []"
  by (cases r) (auto simp: grantPermission_def revokePermission_def Let_def split: sum.splits if_splits)

lemma reentered_events:
  "\<exists>evs. events (foldl (reenter k e) s rs) = events s @ evs \<and> filter is_execution_event evs = []"
proof (induction rs arbitrary: s)
  case Nil
  then show ?case by simp
next
  case (Cons r rs)
  from reenter_events [of k e s r] obtain evs1
    where 1: "events (reenter k e s r) = events s @ evs1" "filter is_execution_event evs1 = []" by blast
  from Cons.IH [of "reenter k e s r"] obtain evs2
    where 2: "events (foldl (reenter k e) (reenter k e s r) rs) = events (reenter k e s r) @ evs2"
      "filter is_execution_event evs2 = []" by blast
  from 1 2 have "events (foldl (reenter k e) s (r # rs)) = events s @ (evs1 @ evs2)
      \<and> filter is_execution_event (evs1 @ evs2) = []"
    by simp
  then show ?case by blast
qed

lemma executeWithPermission_records_once:
  assumes "target (permissions s (msg_sender e) pid) \<noteq> 0"
    and "active (permissions s (msg_sender e) pid)"
    and "target (permissions s (msg_sender e) pid) = tgt"
    and "expiry (permissions s (msg_sender e) pid) = 0
          \<or> block_timestamp e \<le> expiry (permissions s (msg_sender e) pid)"
    and "selector (permissions s (msg_sender e) pid) = 0
          \<or> selector (permissions s (msg_sender e) pid) = bytes4_of data"
    and "val \<le> maxValue (permissions s (msg_sender e) pid)"
    and "(if call_success out then Inr ''success''
          else extractRevertReason (call_memory out) (call_returnData out)) = Inr reason"
  shows "\<exists>s' evs. executeWithPermission k e pid tgt data val out s
            = Inr ((call_success out, call_returnData out), s')
      \<and> executions s' (execution_id k e tgt data val)
            = \<lparr>rec_executor = msg_sender e, rec_target = tgt, rec_selector = bytes4_of data,
                rec_value = val, rec_data = data, rec_timestamp = block_timestamp e,
                rec_permissionId = pid, rec_success = call_success out, rec_reason = reason\<rparr>
      \<and> executionHistory s' = executionHistory s @ [execution_id k e tgt data val]
      \<and> events s' = events s @ evs
      \<and> filter is_execution_event evs =
           [ExecutionRecorded (execution_id k e tgt data val) (msg_sender e) tgt (bytes4_of data) val pid
              (call_success out) reason,
            PermissionUsed (msg_sender e) pid (execution_id k e tgt data val) tgt (bytes4_of data) val
              (call_success out)]"
proof -
  let ?s1 = "if call_success out then foldl (reenter k e) s (call_reentered out) else s"
  let ?id = "execution_id k e tgt data val"
  let ?recorded = "ExecutionRecorded ?id (msg_sender e) tgt (bytes4_of data) val pid (call_success out) reason"
  let ?used = "PermissionUsed (msg_sender e) pid ?id tgt (bytes4_of data) val (call_success out)"
  obtain evs where evs: "events ?s1 = events s @ evs" "filter is_execution_event evs = []"
    using reentered_events [of k e s "call_reentered out"] by (cases "call_success out") auto
  have hist: "executionHistory ?s1 = executionHistory s" by simp
  have "executeWithPermission k e pid tgt data val out s
      = Inr ((call_success out, call_returnData out),
          ?s1\<lparr>executions := (executions ?s1)(?id :=
               \<lparr>rec_executor = msg_sender e, rec_target = tgt, rec_selector = bytes4_of data,
                rec_value = val, rec_data = data, rec_timestamp = block_timestamp e,
                rec_permissionId = pid, rec_success = call_success out, rec_reason = reason\<rparr>),
             executionHistory := executionHistory ?s1 @ [?id],
             events := events ?s1 @ [?recorded, ?used]\<rparr>)"
    (is "_ = Inr (_, ?s')")
    unfolding executeWithPermission_pass [OF assms(1-6)] Let_def assms(7) by simp
  moreover have "executionHistory ?s' = executionHistory s @ [?id]"
    using hist by simp
  moreover have "events ?s' = events s @ (evs @ [?recorded, ?used])"
    using evs(1) by simp
  moreover have "filter is_execution_event (evs @ [?recorded, ?used]) = [?recorded, ?used]"
    using evs(2) by simp
  moreover have "executions ?s' ?id = \<lparr>rec_executor = msg_sender e, rec_target = tgt,
      rec_selector = bytes4_of data, rec_value = val, rec_data = data,
      rec_timestamp = block_timestamp e, rec_permissionId = pid,
      rec_success = call_success out, rec_reason = reason\<rparr>"
    by simp
  ultimately show ?thesis by blast
qed

subsection \<open>Decoding a well-formed revert reason\<close>

lemma be_word_acc:
  "foldl (\<lambda>a b. 256 * a + ucast b) acc (xs :: bytes)
     = (acc :: 'a::len word) * 256 ^ length xs + foldl (\<lambda>a b. 256 * a + ucast b) 0 xs"
proof (induction xs arbitrary: acc)
  case Nil
  then show ?case by simp
next
  case (Cons y ys)
  let ?f = "\<lambda>(a :: 'a word) (b :: 8 word). 256 * a + ucast b"
  have "foldl ?f acc (y # ys) = foldl ?f (256 * acc + ucast y) ys" by simp
  also have "\<dots> = (256 * acc + ucast y) * 256 ^ length ys + foldl ?f 0 ys"
    by (rule Cons.IH)
  also have "\<dots> = acc * 256 ^ length (y # ys) + (ucast y * 256 ^ length ys + foldl ?f 0 ys)"
    by (simp add: ring_distribs)
  also have "ucast y * 256 ^ length ys + foldl ?f 0 ys = foldl ?f (ucast y) ys"
    by (rule Cons.IH [symmetric])
  also have "foldl ?f (ucast y) ys = foldl ?f 0 (y # ys)" by simp
  finally show ?case .
qed

lemma be_word_Cons: "be_word (x # xs) = (ucast x :: 'a::len word) * 256 ^ length xs + be_word xs"
  using be_word_acc [of "ucast x" xs] by (simp add: be_word_def)

lemma be_word_append:
  "be_word (xs @ ys) = (be_word xs :: 'a::len word) * 256 ^ length ys + be_word ys"
  using be_word_acc [of "be_word xs" ys] by (simp add: be_word_def)

lemma be_bytes_Suc: "be_bytes (Suc n) w = ucast (drop_bit (8 * n) w) # be_bytes n w"
  by (simp add: be_bytes_def)

lemma length_be_bytes [simp]: "length (be_bytes n w) = n"
  by (simp add: be_bytes_def)

lemma be_word_be_bytes: "be_word (be_bytes n w) = (take_bit (8 * n) w :: 'a::len word)"
proof (induction n)
  case 0
  then show ?case by (simp add: be_bytes_def be_word_def)
next
  case (Suc n)
  let ?X = "take_bit (8 * Suc n) w"
  have "push_bit (8 * n) (drop_bit (8 * n) ?X) + take_bit (8 * n) ?X = ?X"
    by (rule bits_ident)
  moreover have "drop_bit (8 * n) ?X = take_bit 8 (drop_bit (8 * n) w)"
    by (simp add: drop_bit_take_bit)
  moreover have "take_bit (8 * n) ?X = take_bit (8 * n) w"
    by simp
  ultimately have split: "?X = push_bit (8 * n) (take_bit 8 (drop_bit (8 * n) w)) + take_bit (8 * n) w"
    by simp
  have byte: "(ucast (ucast (drop_bit (8 * n) w) :: 8 word) :: 'a word) = take_bit 8 (drop_bit (8 * n) w)"
    by (simp add: unsigned_ucast_eq)
  show ?case
    unfolding be_bytes_Suc be_word_Cons Suc.IH split byte
    by (simp add: push_bit_eq_mult power_mult)
qed

lemma be_bytes_add:
  "be_bytes (m + n) w = map (\<lambda>i. ucast (drop_bit (8 * i) w)) (rev [n..<m + n]) @ be_bytes n w"
proof -
  have "[0..<m + n] = [0..<n] @ [n..<m + n]"
    using upt_add_eq_append [of 0 n m] by (simp add: add.commute)
  then show ?thesis by (simp add: be_bytes_def)
qed

lemma drop_be_bytes: "drop m (be_bytes (m + n) w) = be_bytes n w"
  by (simp add: be_bytes_add)

lemma of_nat_less_256:
  "a < b \<Longrightarrow> b < 2 ^ 256 \<Longrightarrow> (of_nat a :: uint256) < of_nat b"
  by (simp add: of_nat_word_less_iff take_bit_nat_eq_self)

lemma of_nat_le_256:
  "a \<le> b \<Longrightarrow> b < 2 ^ 256 \<Longrightarrow> (of_nat a :: uint256) \<le> of_nat b"
  by (simp add: of_nat_word_less_eq_iff take_bit_nat_eq_self)

lemma mem_bytes_inside:
  assumes "i + k \<le> length buf"
  shows "map (mem_byte mem buf) [i..<i + k] = take k (drop i buf)"
  using assms by (intro nth_equalityI) (simp_all add: mem_byte_def)

lemma mload_inside:
  "i + 32 \<le> length buf \<Longrightarrow> mload mem buf i = be_word (take 32 (drop i buf))"
  by (simp add: mload_def mem_bytes_inside)

lemma bytes_string_string_bytes [simp]: "bytes_string (string_bytes s) = s"
  by (induction s) (simp_all add: bytes_string_def string_bytes_def unat_of_nat)

lemma be_word_be_bytes_32 [simp]: "be_word (be_bytes 32 (w :: uint256)) = w"
  by (simp add: be_word_be_bytes take_bit_word_eq_self)

lemma unat_of_nat_256: "n < 2 ^ 256 \<Longrightarrow> unat (of_nat n :: uint256) = n"
  by (simp add: unat_of_nat)

lemma garbage_length_bound:
  assumes "L < (2 :: nat) ^ 224"
  shows "L * 2 ^ 32 + 0x08c379a0 < (2 :: nat) ^ 256"
proof -
  from assms have "(L + 1) * 2 ^ 32 \<le> (2 :: nat) ^ 224 * 2 ^ 32"
    by (intro mult_le_mono1) simp
  moreover have "(2 :: nat) ^ 224 * 2 ^ 32 = 2 ^ 256"
    by (simp flip: power_add)
  ultimately show ?thesis by simp
qed

lemma extractRevertReason_decodes:
  assumes "length s < 2 ^ 64"
  shows "extractRevertReason mem (abi_encode_Error s) = Inr s"
proof -
  define pad where "pad = replicate ((32 - length s mod 32) mod 32) (0 :: 8 word)"
  define body where "body = be_bytes 32 (32 :: uint256) @ be_bytes 32 (of_nat (length s) :: uint256)
    @ string_bytes s @ pad"
  define rd where "rd = abi_encode_Error s"
  define L where "L = length rd"
  have rd: "rd = [0x08, 0xc3, 0x79, 0xa0] @ body"
    by (simp add: rd_def abi_encode_Error_def body_def pad_def)
  have len_s: "length (string_bytes s) = length s"
    by (simp add: string_bytes_def)
  have len_body: "length body = 64 + length s + length pad"
    by (simp add: body_def len_s)
  have L: "L = 68 + length s + length pad"
    by (simp add: L_def rd len_body)
  have "length pad < 32"
    by (simp add: pad_def)
  with assms have "L < 2 ^ 64 + 100"
    unfolding L by simp
  also have "\<dots> < (2 :: nat) ^ 224"
    by simp
  finally have L224: "L < 2 ^ 224" .
  then have L256: "L < 2 ^ 256"
    by (rule less_trans) simp
  have s256: "length s < 2 ^ 256"
    using assms by (rule less_trans) simp
  have guard: "length rd \<noteq> 0" "68 \<le> length rd"
    "rd ! 0 = 0x08" "rd ! 1 = 0xc3" "rd ! 2 = 0x79" "rd ! 3 = 0xa0"
    by (simp_all add: rd len_body)
  let ?L = "of_nat L :: uint256"
  define glen where "glen = (of_nat (L * 2 ^ 32 + 0x08c379a0) :: uint256)"
  have moved: "drop 4 (be_bytes 32 ?L @ rd) = be_bytes 28 ?L @ rd"
    using drop_be_bytes [of 4 28 ?L] by simp
  have take32: "take 32 (be_bytes 28 ?L @ rd) = be_bytes 28 ?L @ [0x08, 0xc3, 0x79, 0xa0]"
    by (simp add: rd)
  have drop32: "drop 32 (be_bytes 28 ?L @ rd) = body"
    by (simp add: rd)
  have "be_word (be_bytes 28 ?L) = ?L"
    using L224 by (simp add: be_word_be_bytes take_bit_of_nat take_bit_nat_eq_self)
  moreover have "be_word [0x08, 0xc3, 0x79, 0xa0] = (0x08c379a0 :: uint256)"
    by (simp add: be_word_def)
  ultimately have len: "be_word (be_bytes 28 ?L @ [0x08, 0xc3, 0x79, 0xa0]) = glen"
    by (simp add: be_word_append glen_def)
  have unat_len: "unat glen = L * 2 ^ 32 + 0x08c379a0"
    unfolding glen_def using garbage_length_bound [OF L224] by (rule unat_of_nat_256)
  have offset: "mload mem body 0 = 32"
    by (simp add: mload_inside len_body) (simp add: body_def)
  have n: "mload mem body 32 = of_nat (length s)"
    by (simp add: mload_inside len_body) (simp add: body_def)
  have unat_n: "unat (of_nat (length s) :: uint256) = length s"
    using s256 by (rule unat_of_nat_256)
  have str: "map (mem_byte mem body) [64..<64 + length s] = string_bytes s"
    by (simp add: mem_bytes_inside len_body) (simp add: body_def len_s)
  have c1: "(glen < 32) = False"
    by (simp add: word_less_nat_alt unat_len)
  have c2: "((0xffffffffffffffff :: uint256) < 32) = False"
    by simp
  have c3: "(\<not> (32 :: uint256) + 31 < glen) = False"
    by (simp add: word_less_nat_alt unat_len)
  have c4: "((0xffffffffffffffff :: uint256) < of_nat (length s)) = False"
    using assms by (simp add: word_less_nat_alt unat_n)
  have "(32 :: uint256) + 32 + of_nat (length s) = of_nat (64 + length s)"
    by simp
  moreover have "64 + length s < 2 ^ 256"
  proof -
    from assms have "64 + length s < 2 ^ 64 + 64" by simp
    also have "\<dots> < (2 :: nat) ^ 256" by simp
    finally show ?thesis .
  qed
  ultimately have unat_end: "unat ((32 :: uint256) + 32 + of_nat (length s)) = 64 + length s"
    by (simp only: unat_of_nat_256)
  have c5: "(glen < (32 :: uint256) + 32 + of_nat (length s)) = False"
    unfolding word_less_nat_alt unat_end unat_len L by simp
  have copied: "map (mem_byte mem body)
      [unat (32 :: uint256) + 32..<unat (32 :: uint256) + 32 + unat (of_nat (length s) :: uint256)]
      = string_bytes s"
    using str by (simp add: unat_n)
  have n': "mload mem body (unat (32 :: uint256)) = of_nat (length s)"
    using n by simp
  have decoded: "abi_decode_string mem glen body = Inr s"
    unfolding abi_decode_string_def Let_def offset
    by (simp only: n' c1 c2 c3 c4 c5 if_False copied bytes_string_string_bytes)
  have "drop 4 (be_bytes 32 ?L) = be_bytes 28 ?L"
    using drop_be_bytes [of 4 28 ?L] by simp
  moreover have "take 4 rd = [0x08, 0xc3, 0x79, 0xa0]" and "drop 4 rd = body"
    by (simp_all add: rd)
  ultimately have "extractRevertReason mem rd = abi_decode_string mem glen body"
    unfolding extractRevertReason_def Let_def L_def [symmetric]
    using guard by (simp add: len L_def [symmetric])
  with decoded show ?thesis
    by (simp add: rd_def)
qed

section \<open>The ledger: claims\<close>

text \<open>
  C10. Granting is permissionless. Whoever calls \<open>grantPermission\<close>, and whatever the
  role table holds, the call succeeds when the target is not the zero address and the
  expiry is 0 or lies after the block's time, and it stores an active capability with
  the given fields for the named executor, under the identifier it returns.
\<close>

theorem grantPermission_permissionless:
  assumes "tgt \<noteq> 0" and "exp = 0 \<or> block_timestamp e < exp"
  shows "\<exists>s'. grantPermission k (e\<lparr>msg_sender := caller\<rparr>) executor tgt sel maxV maxT tok exp (s\<lparr>roles := r\<rparr>)
            = Inr (grant_id k e executor tgt sel maxV maxT tok exp, s')
          \<and> permissions s' executor (grant_id k e executor tgt sel maxV maxT tok exp)
            = \<lparr>target = tgt, selector = sel, maxValue = maxV, maxTokenAmount = maxT,
                tokenAddress = tok, expiry = exp, active = True\<rparr>"
  using assms by (auto simp: grantPermission_def Let_def)

theorem grantPermission_permissionless_witness:
  "(0xD0 :: address) \<noteq> 0 \<and> ((1000 :: uint256) = 0 \<or> block_timestamp grant_env < 1000)
   \<and> (\<exists>s'. grantPermission sample_hash (grant_env\<lparr>msg_sender := 9\<rparr>) 0xA 0xD0 0 100 0 0 1000
               (deploy 1\<lparr>roles := (\<lambda>role account. False)\<rparr>)
            = Inr (sample_id, s')
          \<and> permissions s' 0xA sample_id
            = \<lparr>target = 0xD0, selector = 0, maxValue = 100, maxTokenAmount = 0,
                tokenAddress = 0, expiry = 1000, active = True\<rparr>)"
proof -
  have h1: "(0xD0 :: address) \<noteq> 0" by simp
  have h2: "(1000 :: uint256) = 0 \<or> block_timestamp grant_env < 1000"
    by (simp add: grant_env_def)
  from grantPermission_permissionless [OF h1 h2, where k = sample_hash and caller = 9
      and executor = "0xA" and sel = 0 and maxV = 100 and maxT = 0 and tok = 0 and s = "deploy 1"
      and r = "\<lambda>role account. False"]
  show ?thesis using h1 h2 unfolding sample_id_def by blast
qed

text \<open>
  C1. \<open>executeWithPermission\<close> checks its preconditions in the order of the
  specification: when a call violates one of them, it fails with the failure of the
  earliest one it violates, whatever it violates besides; when it violates none, it fails
  with none of the six; and the six failures carry six different revert strings.
\<close>

theorem executeWithPermission_check_order:
  "(\<forall>err. spec_first_failure (permissions s (msg_sender e) pid) tgt (block_timestamp e) data val = Some err
      \<longrightarrow> executeWithPermission k e pid tgt data val out s = Inl err)
   \<and> (spec_first_failure (permissions s (msg_sender e) pid) tgt (block_timestamp e) data val = None
      \<longrightarrow> (\<forall>err \<in> {NotFound, Inactive, TargetMismatch, Expired, SelectorMismatch, ValueExceeded}.
            executeWithPermission k e pid tgt data val out s \<noteq> Inl err))
   \<and> distinct (map message [NotFound, Inactive, TargetMismatch, Expired, SelectorMismatch, ValueExceeded])"
proof (intro conjI allI impI ballI)
  fix err
  assume "spec_first_failure (permissions s (msg_sender e) pid) tgt (block_timestamp e) data val = Some err"
  then show "executeWithPermission k e pid tgt data val out s = Inl err"
    by (rule exec_fails_first)
next
  fix err
  assume pass: "spec_first_failure (permissions s (msg_sender e) pid) tgt (block_timestamp e) data val = None"
    and err: "err \<in> {NotFound, Inactive, TargetMismatch, Expired, SelectorMismatch, ValueExceeded}"
  show "executeWithPermission k e pid tgt data val out s \<noteq> Inl err"
  proof
    assume "executeWithPermission k e pid tgt data val out s = Inl err"
    with pass have "err = AbiDecodeFailed" by (rule exec_pass_error)
    with err show False by simp
  qed
next
  show "distinct (map message [NotFound, Inactive, TargetMismatch, Expired, SelectorMismatch, ValueExceeded])"
    by simp
qed

theorem executeWithPermission_check_order_witness:
  "spec_first_failure (permissions revoked (msg_sender (at_time 700)) sample_id) 0xEE
       (block_timestamp (at_time 700)) [] 5000 = Some Inactive
   \<and> executeWithPermission sample_hash (at_time 700) sample_id 0xEE [] 5000 call_ok revoked = Inl Inactive
   \<and> spec_first_failure (permissions granted (msg_sender (at_time 700)) sample_id) 0xD0
       (block_timestamp (at_time 700)) [] 50 = None
   \<and> executeWithPermission sample_hash (at_time 700) sample_id 0xD0 [] 50 call_ok granted \<noteq> Inl ValueExceeded"
proof -
  have a: "spec_first_failure (permissions revoked (msg_sender (at_time 700)) sample_id) 0xEE
       (block_timestamp (at_time 700)) [] 5000 = Some Inactive"
    by (simp add: spec_first_failure_def at_time_def revoked_permission)
  have b: "spec_first_failure (permissions granted (msg_sender (at_time 700)) sample_id) 0xD0
       (block_timestamp (at_time 700)) [] 50 = None"
    by (simp add: spec_first_failure_def at_time_def granted_permission)
  from a b
    executeWithPermission_check_order [where s = revoked and e = "at_time 700" and pid = sample_id
      and tgt = "0xEE" and data = "[]" and val = 5000 and k = sample_hash and out = call_ok]
    executeWithPermission_check_order [where s = granted and e = "at_time 700" and pid = sample_id
      and tgt = "0xD0" and data = "[]" and val = 50 and k = sample_hash and out = call_ok]
  show ?thesis by simp
qed

text \<open>
  C3. A call of \<open>executeWithPermission\<close> that passes the checks before the value check
  and carries a value above the capability's \<open>maxValue\<close> fails with
  \<open>ValueExceeded\<close>, and the transaction leaves the ledger as it was: no execution
  record is stored, the execution history keeps its length and no event is emitted.
\<close>

theorem value_exceeded_changes_nothing:
  assumes "target (permissions s (msg_sender e) pid) \<noteq> 0"
    and "active (permissions s (msg_sender e) pid)"
    and "target (permissions s (msg_sender e) pid) = tgt"
    and "expiry (permissions s (msg_sender e) pid) = 0
          \<or> block_timestamp e \<le> expiry (permissions s (msg_sender e) pid)"
    and "selector (permissions s (msg_sender e) pid) = 0
          \<or> selector (permissions s (msg_sender e) pid) = bytes4_of data"
    and "maxValue (permissions s (msg_sender e) pid) < val"
  shows "executeWithPermission k e pid tgt data val out s = Inl ValueExceeded
     \<and> transact k s (e, ExecuteWithPermission pid tgt data val out) = s
     \<and> executions (transact k s (e, ExecuteWithPermission pid tgt data val out)) = executions s
     \<and> length (executionHistory (transact k s (e, ExecuteWithPermission pid tgt data val out)))
         = length (executionHistory s)
     \<and> events (transact k s (e, ExecuteWithPermission pid tgt data val out)) = events s"
proof -
  have "executeWithPermission k e pid tgt data val out s = Inl ValueExceeded"
    using assms by (auto simp: executeWithPermission_def Let_def)
  then show ?thesis by (simp add: after_def)
qed

theorem value_exceeded_changes_nothing_witness:
  "maxValue (permissions granted (msg_sender (at_time 700)) sample_id) < 101
     \<and> executeWithPermission sample_hash (at_time 700) sample_id 0xD0 [] 101 call_ok granted = Inl ValueExceeded
     \<and> transact sample_hash granted (at_time 700, ExecuteWithPermission sample_id 0xD0 [] 101 call_ok) = granted
     \<and> events (transact sample_hash granted (at_time 700, ExecuteWithPermission sample_id 0xD0 [] 101 call_ok))
         = events granted"
proof -
  let ?perm = "permissions granted (msg_sender (at_time 700)) sample_id"
  have perm: "?perm = \<lparr>target = 0xD0, selector = 0, maxValue = 100,
     maxTokenAmount = 0, tokenAddress = 0, expiry = 1000, active = True\<rparr>"
    by (simp add: at_time_def granted_permission)
  have h1: "target ?perm \<noteq> 0" and h2: "active ?perm" and h3: "target ?perm = 0xD0"
    and h4: "expiry ?perm = 0 \<or> block_timestamp (at_time 700) \<le> expiry ?perm"
    and h5: "selector ?perm = 0 \<or> selector ?perm = bytes4_of []"
    and h6: "maxValue ?perm < 101"
    unfolding perm by (simp_all add: at_time_def)
  from value_exceeded_changes_nothing [OF h1 h2 h3 h4 h5 h6, where k = sample_hash and out = call_ok] h6
  show ?thesis by blast
qed

text \<open>
  C4, as amended. For a capability with expiry \<open>E \<noteq> 0\<close>: a call of
  \<open>executeWithPermission\<close> at a time strictly after \<open>E\<close> fails with \<open>Expired\<close>, when the
  capability exists for the caller, is active and names the call's target; at any time up
  to and including \<open>E\<close> the call does not fail with \<open>Expired\<close>.
\<close>

theorem expired_only_after_expiry:
  assumes "expiry (permissions s (msg_sender e) pid) \<noteq> 0"
  shows "(target (permissions s (msg_sender e) pid) \<noteq> 0 \<and> active (permissions s (msg_sender e) pid)
            \<and> target (permissions s (msg_sender e) pid) = tgt
            \<and> expiry (permissions s (msg_sender e) pid) < block_timestamp e
          \<longrightarrow> executeWithPermission k e pid tgt data val out s = Inl Expired)
     \<and> (block_timestamp e \<le> expiry (permissions s (msg_sender e) pid)
          \<longrightarrow> executeWithPermission k e pid tgt data val out s \<noteq> Inl Expired)"
proof (intro conjI impI)
  assume "target (permissions s (msg_sender e) pid) \<noteq> 0 \<and> active (permissions s (msg_sender e) pid)
            \<and> target (permissions s (msg_sender e) pid) = tgt
            \<and> expiry (permissions s (msg_sender e) pid) < block_timestamp e"
  with assms show "executeWithPermission k e pid tgt data val out s = Inl Expired"
    by (auto simp: executeWithPermission_def Let_def)
next
  assume le: "block_timestamp e \<le> expiry (permissions s (msg_sender e) pid)"
  show "executeWithPermission k e pid tgt data val out s \<noteq> Inl Expired"
  proof
    assume failed: "executeWithPermission k e pid tgt data val out s = Inl Expired"
    show False
    proof (cases "spec_first_failure (permissions s (msg_sender e) pid) tgt (block_timestamp e) data val")
      case None
      from exec_pass_error [OF None failed] show False by simp
    next
      case (Some err)
      from exec_fails_first [OF Some, of k out] failed have "err = Expired" by simp
      with Some le show False
        by (simp add: spec_first_failure_def split: if_splits)
    qed
  qed
qed

theorem expired_only_after_expiry_witness:
  "expiry (permissions granted (msg_sender (at_time 1001)) sample_id) \<noteq> 0
   \<and> executeWithPermission sample_hash (at_time 1001) sample_id 0xD0 [] 50 call_ok granted = Inl Expired
   \<and> executeWithPermission sample_hash (at_time 999) sample_id 0xD0 [] 50 call_ok granted \<noteq> Inl Expired"
proof -
  have perm: "permissions granted (msg_sender (at_time t)) sample_id = \<lparr>target = 0xD0, selector = 0,
     maxValue = 100, maxTokenAmount = 0, tokenAddress = 0, expiry = 1000, active = True\<rparr>" for t
    by (simp add: at_time_def granted_permission)
  have h: "expiry (permissions granted (msg_sender (at_time t)) sample_id) \<noteq> 0" for t
    unfolding perm by simp
  from expired_only_after_expiry [OF h, where t1 = 1001 and tgt = "0xD0" and k = sample_hash
      and data = "[]" and val = 50 and out = call_ok]
  have a: "executeWithPermission sample_hash (at_time 1001) sample_id 0xD0 [] 50 call_ok granted = Inl Expired"
    unfolding perm by (simp add: at_time_def)
  from expired_only_after_expiry [OF h, where t1 = 999 and tgt = "0xD0" and k = sample_hash
      and data = "[]" and val = 50 and out = call_ok]
  have b: "executeWithPermission sample_hash (at_time 999) sample_id 0xD0 [] 50 call_ok granted \<noteq> Inl Expired"
    unfolding perm by (simp add: at_time_def)
  from a b h show ?thesis by blast
qed

text \<open>
  C4 as stated fails at the time \<open>E\<close> itself: the sample capability expires at 1000, and
  the executor's call at time 1000 goes through.
\<close>

theorem expired_at_expiry_counterexample:
  "expiry (permissions granted (msg_sender (at_time 1000)) sample_id) = 1000
   \<and> block_timestamp (at_time 1000) = 1000
   \<and> \<not> isl (executeWithPermission sample_hash (at_time 1000) sample_id 0xD0 [] 50 call_ok granted)"
proof -
  let ?perm = "permissions granted (msg_sender (at_time 1000)) sample_id"
  have perm: "?perm = \<lparr>target = 0xD0, selector = 0,
     maxValue = 100, maxTokenAmount = 0, tokenAddress = 0, expiry = 1000, active = True\<rparr>"
    by (simp add: at_time_def granted_permission)
  have h1: "target ?perm \<noteq> 0" and h2: "active ?perm" and h3: "target ?perm = 0xD0"
    and h4: "expiry ?perm = 0 \<or> block_timestamp (at_time 1000) \<le> expiry ?perm"
    and h5: "selector ?perm = 0 \<or> selector ?perm = bytes4_of []"
    and h6: "50 \<le> maxValue ?perm"
    unfolding perm by (simp_all add: at_time_def)
  have "\<not> isl (executeWithPermission sample_hash (at_time 1000) sample_id 0xD0 [] 50 call_ok granted)"
    unfolding executeWithPermission_pass [OF h1 h2 h3 h4 h5 h6] Let_def
    by (simp add: call_ok_def)
  then show ?thesis unfolding perm by (simp add: at_time_def)
qed

text \<open>
  C8, as amended. Revoking a capability that its grantee has already revoked succeeds and
  leaves the storage as it was, and it emits \<open>PermissionRevoked\<close> once more; revoking
  under an identifier the caller has no capability for fails with \<open>NotFound\<close>.
\<close>

theorem second_revoke_emits_again:
  "(target (permissions s (msg_sender e) pid) \<noteq> 0 \<and> \<not> active (permissions s (msg_sender e) pid)
      \<longrightarrow> revokePermission e pid s
            = Inr ((), s\<lparr>events := events s @ [PermissionRevoked (msg_sender e) pid]\<rparr>))
   \<and> (target (permissions s (msg_sender e) pid) = 0 \<longrightarrow> revokePermission e pid s = Inl NotFound)"
proof (intro conjI impI)
  let ?p = "permissions s (msg_sender e) pid"
  assume a: "target ?p \<noteq> 0 \<and> \<not> active ?p"
  then have "?p\<lparr>active := False\<rparr> = ?p"
    by simp
  then have "(permissions s)(msg_sender e := (permissions s (msg_sender e))(pid := ?p\<lparr>active := False\<rparr>))
      = permissions s"
    by simp
  then show "revokePermission e pid s
      = Inr ((), s\<lparr>events := events s @ [PermissionRevoked (msg_sender e) pid]\<rparr>)"
    using a by (simp add: revokePermission_def Let_def)
next
  assume "target (permissions s (msg_sender e) pid) = 0"
  then show "revokePermission e pid s = Inl NotFound"
    by (simp add: revokePermission_def Let_def)
qed

theorem second_revoke_emits_again_witness:
  "target (permissions revoked (msg_sender (at_time 700)) sample_id) \<noteq> 0
   \<and> \<not> active (permissions revoked (msg_sender (at_time 700)) sample_id)
   \<and> revokePermission (at_time 700) sample_id revoked
       = Inr ((), revoked\<lparr>events := events revoked @ [PermissionRevoked (msg_sender (at_time 700)) sample_id]\<rparr>)
   \<and> target (permissions (deploy 1) (msg_sender (at_time 700)) 77) = 0
   \<and> revokePermission (at_time 700) 77 (deploy 1) = Inl NotFound"
proof -
  have a: "target (permissions revoked (msg_sender (at_time 700)) sample_id) \<noteq> 0
     \<and> \<not> active (permissions revoked (msg_sender (at_time 700)) sample_id)"
    by (simp add: at_time_def revoked_permission)
  have b: "target (permissions (deploy 1) (msg_sender (at_time 700)) 77) = 0"
    by (simp add: deploy_def zero_Permission_def)
  from a b second_revoke_emits_again [where s = revoked and e = "at_time 700" and pid = sample_id]
    second_revoke_emits_again [where s = "deploy 1" and e = "at_time 700" and pid = 77]
  show ?thesis by blast
qed

text \<open>
  C8 as stated fails: after the second revocation of the sample capability the log holds
  \<open>PermissionRevoked\<close> twice.
\<close>

theorem second_revoke_counterexample:
  "\<not> active (permissions revoked 0xA sample_id)
   \<and> events revoked = [PermissionGranted 0xA sample_id 0xD0 0 100 0 0 1000, PermissionRevoked 0xA sample_id]
   \<and> events (transact sample_hash revoked (at_time 700, RevokePermission sample_id))
       = [PermissionGranted 0xA sample_id 0xD0 0 100 0 0 1000, PermissionRevoked 0xA sample_id,
          PermissionRevoked 0xA sample_id]"
  by (simp add: revoked_state granted_state revokePermission_def after_def at_time_def Let_def)


text \<open>
  What the ledger does keep of a revocation. Over any sequence of transactions none of
  which calls \<open>grantPermission\<close> with the executor, arguments and block that give the
  identifier again, the capability stored under an executor and identifier stays as it is
  or is revoked, its other fields unchanged; once it is inactive it stays inactive, and
  equal to what it was.
\<close>

lemma revoked_stays_revoked_without_regrant:
  assumes "\<forall>c \<in> set calls. \<not> regrants k a pid c"
  shows "same_or_revoked (permissions s a pid) (permissions (run k s calls) a pid)
     \<and> (\<not> active (permissions s a pid)
          \<longrightarrow> permissions (run k s calls) a pid = permissions s a pid
              \<and> \<not> active (permissions (run k s calls) a pid))"
proof -
  from assms have sr: "same_or_revoked (permissions s a pid) (permissions (run k s calls) a pid)"
    by (rule run_same_or_revoked)
  moreover have "permissions (run k s calls) a pid = permissions s a pid"
    if "\<not> active (permissions s a pid)"
  proof -
    from that have "(permissions s a pid)\<lparr>active := False\<rparr> = permissions s a pid" by simp
    with sr show ?thesis by (auto simp: same_or_revoked_def)
  qed
  ultimately show ?thesis by simp
qed

lemma revoked_stays_revoked_without_regrant_example:
  "list_all (\<lambda>c. \<not> regrants sample_hash 0xA sample_id c) later_calls
   \<and> \<not> active (permissions revoked 0xA sample_id)
   \<and> permissions (run sample_hash revoked later_calls) 0xA sample_id = permissions revoked 0xA sample_id
   \<and> \<not> active (permissions (run sample_hash revoked later_calls) 0xA sample_id)"
proof -
  have quiet: "\<forall>c \<in> set later_calls. \<not> regrants sample_hash 0xA sample_id c"
    by (simp add: later_calls_def call_ok_def)
  have inactive: "\<not> active (permissions revoked 0xA sample_id)"
    by (simp add: revoked_permission)
  from revoked_stays_revoked_without_regrant [OF quiet, of revoked] inactive quiet
  show ?thesis by (simp add: list_all_iff)
qed

text \<open>
  C7, at a failing input. Account 9 grants the sample capability to executor \<open>0xA\<close>, the
  executor revokes it, and account 9 makes the same grant again, all three in one block.
  The claim has a revoked capability never active again. Whatever the hash function,
  the second grant returns the identifier of the first, which the source documents as
  unique, stores the capability under it with \<open>active\<close> true again, and leaves the
  identifier twice in the executor's list.
\<close>

theorem regrant_in_same_block_reactivates:
  "\<not> active (permissions (run k (deploy 1)
        [(grant_env, sample_grant),
         (at_time 500, RevokePermission (grant_id k grant_env 0xA 0xD0 0 100 0 0 1000))])
      0xA (grant_id k grant_env 0xA 0xD0 0 100 0 0 1000))
   \<and> grantPermission k grant_env 0xA 0xD0 0 100 0 0 1000
        (run k (deploy 1)
          [(grant_env, sample_grant),
           (at_time 500, RevokePermission (grant_id k grant_env 0xA 0xD0 0 100 0 0 1000))])
      = Inr (grant_id k grant_env 0xA 0xD0 0 100 0 0 1000,
          run k (deploy 1)
            [(grant_env, sample_grant),
             (at_time 500, RevokePermission (grant_id k grant_env 0xA 0xD0 0 100 0 0 1000)),
             (grant_env, sample_grant)])
   \<and> active (permissions (run k (deploy 1)
        [(grant_env, sample_grant),
         (at_time 500, RevokePermission (grant_id k grant_env 0xA 0xD0 0 100 0 0 1000)),
         (grant_env, sample_grant)])
      0xA (grant_id k grant_env 0xA 0xD0 0 100 0 0 1000))
   \<and> userPermissions (run k (deploy 1)
        [(grant_env, sample_grant),
         (at_time 500, RevokePermission (grant_id k grant_env 0xA 0xD0 0 100 0 0 1000)),
         (grant_env, sample_grant)]) 0xA
      = [grant_id k grant_env 0xA 0xD0 0 100 0 0 1000, grant_id k grant_env 0xA 0xD0 0 100 0 0 1000]
   \<and> block_timestamp (at_time 500) = block_timestamp grant_env
   \<and> block_number (at_time 500) = block_number grant_env"
  by (simp add: run_def sample_grant_def grant_env_def at_time_def
      grantPermission_def revokePermission_def after_def deploy_def Let_def)

text \<open>
  C2, at a failing input. The executor calls within the limits of the sample capability,
  and the called contract reverts with \<open>bad_revert_data\<close>. The claim has the gate return
  normally with one record and two events; the gate reverts instead, and the ledger
  stays as it was, with no record and no event of the execution.
\<close>

theorem malformed_revert_data_reverts_the_gate:
  "call_success (call_failed bad_revert_data) = False
   \<and> executeWithPermission sample_hash (at_time 700) sample_id 0xD0 [] 50 (call_failed bad_revert_data) granted
       = Inl AbiDecodeFailed
   \<and> transact sample_hash granted
        (at_time 700, ExecuteWithPermission sample_id 0xD0 [] 50 (call_failed bad_revert_data)) = granted
   \<and> executionHistory granted = []
   \<and> events granted = [PermissionGranted 0xA sample_id 0xD0 0 100 0 0 1000]"
proof -
  let ?perm = "permissions granted (msg_sender (at_time 700)) sample_id"
  have perm: "?perm = \<lparr>target = 0xD0, selector = 0,
     maxValue = 100, maxTokenAmount = 0, tokenAddress = 0, expiry = 1000, active = True\<rparr>"
    by (simp add: at_time_def granted_permission)
  have h1: "target ?perm \<noteq> 0" and h2: "active ?perm" and h3: "target ?perm = 0xD0"
    and h4: "expiry ?perm = 0 \<or> block_timestamp (at_time 700) \<le> expiry ?perm"
    and h5: "selector ?perm = 0 \<or> selector ?perm = bytes4_of []"
    and h6: "50 \<le> maxValue ?perm"
    unfolding perm by (simp_all add: at_time_def)
  have "executeWithPermission sample_hash (at_time 700) sample_id 0xD0 [] 50 (call_failed bad_revert_data) granted
       = Inl AbiDecodeFailed"
    unfolding executeWithPermission_pass [OF h1 h2 h3 h4 h5 h6] Let_def
    by (simp add: call_failed_def bad_revert_data_refused)
  then show ?thesis
    by (simp add: after_def call_failed_def granted_state)
qed

text \<open>
  C9, at a failing input. \<open>bad_revert_data\<close> is 68 bytes long and starts with the selector
  of \<open>Error(string)\<close>, and it does not decode as one. The claim has the routine fall back
  to "execution reverted"; the routine reverts instead.
\<close>

theorem extractRevertReason_refuses_malformed_error:
  "68 \<le> length bad_revert_data
   \<and> take 4 bad_revert_data = [0x08, 0xc3, 0x79, 0xa0]
   \<and> extractRevertReason (\<lambda>_. 0) bad_revert_data = Inl AbiDecodeFailed
   \<and> extractRevertReason (\<lambda>_. 0) bad_revert_data \<noteq> Inr ''execution reverted''"
proof -
  have "68 \<le> length bad_revert_data" and "take 4 bad_revert_data = [0x08, 0xc3, 0x79, 0xa0]"
    by (simp_all add: bad_revert_data_def)
  then show ?thesis by (simp add: bad_revert_data_refused)
qed

section \<open>The reconciler: shared lemmas\<close>

text \<open>Replaying a stream whose handler is idempotent, and keeps two states that an event
  makes equal so after any other event.\<close>

lemma foldl_absorbs:
  assumes pres: "\<And>s s' a b. h s a = h s' a \<Longrightarrow> h (h s b) a = h (h s' b) a"
  shows "h s a = h s' a \<Longrightarrow> a \<in> set w \<Longrightarrow> foldl h s w = foldl h s' w"
proof (induction w arbitrary: s s')
  case Nil
  then show ?case by simp
next
  case (Cons b w)
  show ?case
  proof (cases "b = a")
    case True
    with Cons.prems(1) show ?thesis by simp
  next
    case False
    with Cons.prems(2) have "a \<in> set w" by simp
    moreover have "h (h s b) a = h (h s' b) a"
      using Cons.prems(1) by (rule pres)
    ultimately have "foldl h (h s b) w = foldl h (h s' b) w"
      by (rule Cons.IH [rotated])
    then show ?thesis by simp
  qed
qed

lemma foldl_redelivered_before:
  assumes idem: "\<And>s a. h (h s a) a = h s a"
    and pres: "\<And>s s' a b. h s a = h s' a \<Longrightarrow> h (h s b) a = h (h s' b) a"
  shows "set u \<subseteq> set w \<Longrightarrow> foldl h s (u @ w) = foldl h s w"
proof (induction u arbitrary: s)
  case Nil
  then show ?case by simp
next
  case (Cons a u)
  then have "a \<in> set (u @ w)" and sub: "set u \<subseteq> set w" by auto
  from foldl_absorbs [of h, OF pres idem this(1)]
  have "foldl h (h s a) (u @ w) = foldl h s (u @ w)" .
  with Cons.IH [OF sub, of s] show ?case by simp
qed

lemma foldl_replicate_idem:
  assumes idem: "\<And>s a. h (h s a) a = h s a"
  shows "foldl h s (replicate (Suc n) a) = h s a"
  by (induction n) (simp_all add: idem)

lemma foldl_redelivered_in_place:
  assumes idem: "\<And>s a. h (h s a) a = h s a"
  shows "foldl h s (redelivered nevs) = foldl h s (map snd nevs)"
proof (induction nevs arbitrary: s)
  case Nil
  then show ?case by (simp add: redelivered_def)
next
  case (Cons p nevs)
  obtain n a where p: "p = (n, a)" by (cases p)
  have "redelivered (p # nevs) = replicate (Suc n) a @ redelivered nevs"
    by (simp add: redelivered_def p)
  then have "foldl h s (redelivered (p # nevs)) = foldl h (h s a) (redelivered nevs)"
    by (simp only: foldl_append foldl_replicate_idem [of h, OF idem])
  also have "\<dots> = foldl h (h s a) (map snd nevs)"
    by (rule Cons.IH)
  finally show ?case by (simp add: p)
qed

subsection \<open>The Envio handlers\<close>

lemmas envio_defs = PermissionGranted_handler_def PermissionRevoked_handler_def
  PermissionUsed_handler_def ExecutionRecorded_handler_def

lemma envio_handle_idem: "envio_handle (envio_handle ctx ev) ev = envio_handle ctx ev"
proof (cases ev)
  case (Pair m le)
  then show ?thesis
    by (cases le) (auto simp: envio_defs Let_def split: option.splits)
qed

lemma envio_Permission_at:
  "ctx_Permission (envio_handle s (m, ev)) x =
     (case ev of
        LogPermissionGranted user permissionId tgt sel maxV maxT tok exp \<Rightarrow>
          if x = permissionId then
            Some \<lparr>p_user = toLowerCase user, p_target = toLowerCase tgt,
              p_selector = sel, p_maxValue = maxV, p_maxTokenAmount = maxT,
              p_tokenAddress = toLowerCase tok, p_expiry = exp, p_active = True,
              p_grantedAt = block_ts m, p_grantedAtBlock = block_no m,
              p_revokedAt = None, p_revokedAtBlock = None\<rparr>
          else ctx_Permission s x
      | LogPermissionRevoked user permissionId \<Rightarrow>
          if x = permissionId then
            map_option (\<lambda>existingPermission.
              existingPermission\<lparr>p_active := False, p_revokedAt := Some (block_ts m),
                p_revokedAtBlock := Some (block_no m)\<rparr>) (ctx_Permission s x)
          else ctx_Permission s x
      | _ \<Rightarrow> ctx_Permission s x)"
  by (cases ev) (auto simp: envio_defs Let_def split: option.splits)

lemma envio_Execution_at:
  "ctx_Execution (envio_handle s (m, ev)) x =
     (case ev of
        LogExecutionRecorded executionId executor tgt sel val permissionId success reason \<Rightarrow>
          if x = executionId then
            Some \<lparr>x_executor = toLowerCase executor, x_target = toLowerCase tgt,
              x_selector = sel, x_value = val, x_data = [], x_timestamp = block_ts m,
              x_blockNumber = block_no m, x_transactionHash = transaction_hash m,
              x_permission_id = permissionId, x_permissionId = permissionId,
              x_success = success, x_reason = reason\<rparr>
          else ctx_Execution s x
      | _ \<Rightarrow> ctx_Execution s x)"
  by (cases ev) (auto simp: envio_defs Let_def split: option.splits)

lemma envio_PermissionGrantedEvent_at:
  "ctx_PermissionGrantedEvent (envio_handle s (m, ev)) x =
     (case ev of
        LogPermissionGranted user permissionId tgt sel maxV maxT tok exp \<Rightarrow>
          if x = event_id m then
            Some \<lparr>g_user = toLowerCase user, g_permissionId = permissionId,
              g_target = toLowerCase tgt, g_selector = sel, g_maxValue = maxV,
              g_maxTokenAmount = maxT, g_tokenAddress = toLowerCase tok, g_expiry = exp,
              g_timestamp = block_ts m, g_blockNumber = block_no m,
              g_transactionHash = transaction_hash m\<rparr>
          else ctx_PermissionGrantedEvent s x
      | _ \<Rightarrow> ctx_PermissionGrantedEvent s x)"
  by (cases ev) (auto simp: envio_defs Let_def split: option.splits)

lemma envio_PermissionRevokedEvent_at:
  "ctx_PermissionRevokedEvent (envio_handle s (m, ev)) x =
     (case ev of
        LogPermissionRevoked user permissionId \<Rightarrow>
          if x = event_id m then
            Some \<lparr>r_user = toLowerCase user, r_permissionId = permissionId,
              r_timestamp = block_ts m, r_blockNumber = block_no m,
              r_transactionHash = transaction_hash m\<rparr>
          else ctx_PermissionRevokedEvent s x
      | _ \<Rightarrow> ctx_PermissionRevokedEvent s x)"
  by (cases ev) (auto simp: envio_defs Let_def split: option.splits)

lemma envio_PermissionUsedEvent_at:
  "ctx_PermissionUsedEvent (envio_handle s (m, ev)) x =
     (case ev of
        LogPermissionUsed user permissionId executionId tgt sel val success \<Rightarrow>
          if x = event_id m then
            Some \<lparr>u_user = toLowerCase user, u_permissionId = permissionId,
              u_executionId = executionId, u_target = toLowerCase tgt, u_selector = sel,
              u_value = val, u_success = success, u_timestamp = block_ts m,
              u_blockNumber = block_no m, u_transactionHash = transaction_hash m\<rparr>
          else ctx_PermissionUsedEvent s x
      | _ \<Rightarrow> ctx_PermissionUsedEvent s x)"
  by (cases ev) (auto simp: envio_defs Let_def split: option.splits)

lemma envio_handle_preserves:
  assumes "envio_handle s a = envio_handle s' a"
  shows "envio_handle (envio_handle s b) a = envio_handle (envio_handle s' b) a"
proof -
  obtain ma ea where a: "a = (ma, ea)" by (cases a)
  obtain mb eb where b: "b = (mb, eb)" by (cases b)
  have 1: "ctx_Permission (envio_handle (envio_handle s b) a) x
       = ctx_Permission (envio_handle (envio_handle s' b) a) x" for x
    using arg_cong [OF assms, of "\<lambda>c. ctx_Permission c x"] unfolding a b envio_Permission_at
    by (cases ea; cases eb) (auto simp: option.map_comp comp_def split: if_splits)
  have 2: "ctx_Execution (envio_handle (envio_handle s b) a) x
       = ctx_Execution (envio_handle (envio_handle s' b) a) x" for x
    using arg_cong [OF assms, of "\<lambda>c. ctx_Execution c x"] unfolding a b envio_Execution_at
    by (cases ea; cases eb) (auto split: if_splits)
  have 3: "ctx_PermissionGrantedEvent (envio_handle (envio_handle s b) a) x
       = ctx_PermissionGrantedEvent (envio_handle (envio_handle s' b) a) x" for x
    using arg_cong [OF assms, of "\<lambda>c. ctx_PermissionGrantedEvent c x"]
    unfolding a b envio_PermissionGrantedEvent_at
    by (cases ea; cases eb) (auto split: if_splits)
  have 4: "ctx_PermissionRevokedEvent (envio_handle (envio_handle s b) a) x
       = ctx_PermissionRevokedEvent (envio_handle (envio_handle s' b) a) x" for x
    using arg_cong [OF assms, of "\<lambda>c. ctx_PermissionRevokedEvent c x"]
    unfolding a b envio_PermissionRevokedEvent_at
    by (cases ea; cases eb) (auto split: if_splits)
  have 5: "ctx_PermissionUsedEvent (envio_handle (envio_handle s b) a) x
       = ctx_PermissionUsedEvent (envio_handle (envio_handle s' b) a) x" for x
    using arg_cong [OF assms, of "\<lambda>c. ctx_PermissionUsedEvent c x"]
    unfolding a b envio_PermissionUsedEvent_at
    by (cases ea; cases eb) (auto split: if_splits)
  show ?thesis
    by (rule handler_context.equality) (simp_all add: 1 2 3 4 5 fun_eq_iff)
qed


subsection \<open>The handlers behind handleHypnosExecutor\<close>

lemmas handler_defs = handlePermissionGranted_def handlePermissionRevoked_def
  handlePermissionUsed_def handleExecutionRecorded_def

lemma handleHypnosExecutor_idem:
  "handleHypnosExecutor (handleHypnosExecutor st ev) ev = handleHypnosExecutor st ev"
proof (cases ev)
  case (Pair m le)
  then show ?thesis
    by (cases le) (auto simp: handler_defs Let_def split: option.splits)
qed

lemma handle_linked_idem: "handle_linked (handle_linked st ev) ev = handle_linked st ev"
proof (cases ev)
  case (Pair m le)
  then show ?thesis
    by (cases le) (auto simp: handler_defs Let_def split: option.splits)
qed

lemma linked_Permission_at:
  "st_Permission (handle_linked s (m, ev)) x =
     (case ev of
        LogPermissionGranted user permissionId tgt sel maxV maxT tok exp \<Rightarrow>
          if x = permissionId then
            Some \<lparr>gp_user = Some user, gp_active = Some True,
              gp_grantedAt = Some (block_ts m), gp_grantedAtBlock = Some (block_no m),
              gp_revokedAt = None, gp_revokedAtBlock = None\<rparr>
          else st_Permission s x
      | LogPermissionRevoked user permissionId \<Rightarrow>
          if x = permissionId then
            map_option (\<lambda>permission.
              permission\<lparr>gp_active := Some False, gp_revokedAt := Some (block_ts m),
                gp_revokedAtBlock := Some (block_no m)\<rparr>) (st_Permission s x)
          else st_Permission s x
      | _ \<Rightarrow> st_Permission s x)"
  by (cases ev) (auto simp: handler_defs Let_def split: option.splits)

lemma linked_Execution_at:
  "st_Execution (handle_linked s (m, ev)) x =
     (case ev of
        LogExecutionRecorded executionId executor tgt sel val permissionId success reason \<Rightarrow>
          if x = executionId then
            Some \<lparr>gx_executor = executor, gx_permission = permissionId,
              gx_permissionId = permissionId, gx_timestamp = block_ts m,
              gx_blockNumber = block_no m, gx_transactionHash = transaction_hash m\<rparr>
          else st_Execution s x
      | _ \<Rightarrow> st_Execution s x)"
  by (cases ev) (auto simp: handler_defs Let_def split: option.splits)

lemma linked_PermissionGrantedEvent_at:
  "st_PermissionGrantedEvent (handle_linked s (m, ev)) x =
     (case ev of
        LogPermissionGranted user permissionId tgt sel maxV maxT tok exp \<Rightarrow>
          if x = event_id m then
            Some \<lparr>ge_user = user, ge_permissionId = permissionId,
              ge_timestamp = block_ts m, ge_blockNumber = block_no m,
              ge_transactionHash = transaction_hash m\<rparr>
          else st_PermissionGrantedEvent s x
      | _ \<Rightarrow> st_PermissionGrantedEvent s x)"
  by (cases ev) (auto simp: handler_defs Let_def split: option.splits)

lemma linked_PermissionRevokedEvent_at:
  "st_PermissionRevokedEvent (handle_linked s (m, ev)) x =
     (case ev of
        LogPermissionRevoked user permissionId \<Rightarrow>
          if x = event_id m then
            Some \<lparr>ge_user = user, ge_permissionId = permissionId,
              ge_timestamp = block_ts m, ge_blockNumber = block_no m,
              ge_transactionHash = transaction_hash m\<rparr>
          else st_PermissionRevokedEvent s x
      | _ \<Rightarrow> st_PermissionRevokedEvent s x)"
  by (cases ev) (auto simp: handler_defs Let_def split: option.splits)

lemma linked_PermissionUsedEvent_at:
  "st_PermissionUsedEvent (handle_linked s (m, ev)) x =
     (case ev of
        LogPermissionUsed user permissionId executionId tgt sel val success \<Rightarrow>
          if x = event_id m then
            Some \<lparr>gu_user = user, gu_permissionId = permissionId,
              gu_executionId = executionId, gu_timestamp = block_ts m,
              gu_blockNumber = block_no m, gu_transactionHash = transaction_hash m\<rparr>
          else st_PermissionUsedEvent s x
      | _ \<Rightarrow> st_PermissionUsedEvent s x)"
  by (cases ev) (auto simp: handler_defs Let_def split: option.splits)

lemma handle_linked_preserves:
  assumes "handle_linked s a = handle_linked s' a"
  shows "handle_linked (handle_linked s b) a = handle_linked (handle_linked s' b) a"
proof -
  obtain ma ea where a: "a = (ma, ea)" by (cases a)
  obtain mb eb where b: "b = (mb, eb)" by (cases b)
  have 1: "st_Permission (handle_linked (handle_linked s b) a) x
       = st_Permission (handle_linked (handle_linked s' b) a) x" for x
    using arg_cong [OF assms, of "\<lambda>c. st_Permission c x"] unfolding a b linked_Permission_at
    by (cases ea; cases eb) (auto simp: option.map_comp comp_def split: if_splits)
  have 2: "st_Execution (handle_linked (handle_linked s b) a) x
       = st_Execution (handle_linked (handle_linked s' b) a) x" for x
    using arg_cong [OF assms, of "\<lambda>c. st_Execution c x"] unfolding a b linked_Execution_at
    by (cases ea; cases eb) (auto split: if_splits)
  have 3: "st_PermissionGrantedEvent (handle_linked (handle_linked s b) a) x
       = st_PermissionGrantedEvent (handle_linked (handle_linked s' b) a) x" for x
    using arg_cong [OF assms, of "\<lambda>c. st_PermissionGrantedEvent c x"]
    unfolding a b linked_PermissionGrantedEvent_at
    by (cases ea; cases eb) (auto split: if_splits)
  have 4: "st_PermissionRevokedEvent (handle_linked (handle_linked s b) a) x
       = st_PermissionRevokedEvent (handle_linked (handle_linked s' b) a) x" for x
    using arg_cong [OF assms, of "\<lambda>c. st_PermissionRevokedEvent c x"]
    unfolding a b linked_PermissionRevokedEvent_at
    by (cases ea; cases eb) (auto split: if_splits)
  have 5: "st_PermissionUsedEvent (handle_linked (handle_linked s b) a) x
       = st_PermissionUsedEvent (handle_linked (handle_linked s' b) a) x" for x
    using arg_cong [OF assms, of "\<lambda>c. st_PermissionUsedEvent c x"]
    unfolding a b linked_PermissionUsedEvent_at
    by (cases ea; cases eb) (auto split: if_splits)
  show ?thesis
    by (rule store.equality) (simp_all add: 1 2 3 4 5 fun_eq_iff)
qed

lemma handleHypnosExecutor_linked:
  assumes "\<And>executionId executor tgt sel val permissionId success reason.
      snd ev = LogExecutionRecorded executionId executor tgt sel val permissionId success reason
        \<Longrightarrow> permissionId \<in> dom (st_Permission st)"
  shows "handleHypnosExecutor st ev = handle_linked st ev"
proof (cases ev)
  case (Pair m le)
  with assms show ?thesis
    by (cases le) (auto simp: handler_defs Let_def)
qed

lemma handleHypnosExecutor_dom:
  "dom (st_Permission (handleHypnosExecutor st (m, ev))) =
     (case ev of
        LogPermissionGranted user permissionId tgt sel maxV maxT tok exp \<Rightarrow>
          insert permissionId (dom (st_Permission st))
      | _ \<Rightarrow> dom (st_Permission st))"
  by (cases ev) (auto simp: handler_defs Let_def split: option.splits)

lemma causal_replay_linked:
  "causal known evs \<Longrightarrow> known \<subseteq> dom (st_Permission st)
     \<Longrightarrow> replay st evs = foldl handle_linked st evs"
proof (induction evs arbitrary: known st)
  case Nil
  then show ?case by (simp add: replay_def)
next
  case (Cons ev evs)
  obtain m le where ev: "ev = (m, le)" by (cases ev)
  define known' where "known' =
    (case le of
       LogPermissionGranted user permissionId tgt sel maxV maxT tok exp \<Rightarrow> insert permissionId known
     | _ \<Rightarrow> known)"
  have rest: "causal known' evs"
    using Cons.prems(1) unfolding ev known'_def by (cases le) simp_all
  have step: "handleHypnosExecutor st ev = handle_linked st ev"
  proof (rule handleHypnosExecutor_linked)
    fix executionId executor tgt sel val permissionId success reason
    assume "snd ev = LogExecutionRecorded executionId executor tgt sel val permissionId success reason"
    with Cons.prems(1) have "permissionId \<in> known"
      unfolding ev by simp
    with Cons.prems(2) show "permissionId \<in> dom (st_Permission st)" by blast
  qed
  have "known' \<subseteq> dom (st_Permission (handleHypnosExecutor st ev))"
    using Cons.prems(2) unfolding ev handleHypnosExecutor_dom known'_def by (cases le) auto
  with rest have "replay (handleHypnosExecutor st ev) evs
      = foldl handle_linked (handleHypnosExecutor st ev) evs"
    by (rule Cons.IH)
  then show ?case
    using step by (simp add: replay_def)
qed

lemma replay_dom_grows: "dom (st_Permission st) \<subseteq> dom (st_Permission (replay st evs))"
proof (induction evs arbitrary: st)
  case Nil
  then show ?case by (simp add: replay_def)
next
  case (Cons ev evs)
  obtain m le where ev: "ev = (m, le)" by (cases ev)
  have "dom (st_Permission st) \<subseteq> dom (st_Permission (handleHypnosExecutor st ev))"
    unfolding ev handleHypnosExecutor_dom by (cases le) auto
  with Cons.IH [of "handleHypnosExecutor st ev"] show ?case
    by (auto simp: replay_def)
qed

lemma replay_twice_causal:
  assumes "causal (dom (st_Permission st)) evs"
  shows "replay st (evs @ evs) = replay st evs"
proof -
  have first: "replay st evs = foldl handle_linked st evs"
    using assms by (rule causal_replay_linked) simp
  have second: "replay (replay st evs) evs = foldl handle_linked (replay st evs) evs"
    using assms by (rule causal_replay_linked) (rule replay_dom_grows)
  have "replay st (evs @ evs) = replay (replay st evs) evs"
    by (simp add: replay_def)
  also have "\<dots> = foldl handle_linked (replay st evs) evs"
    by (rule second)
  also have "\<dots> = foldl handle_linked (foldl handle_linked st evs) evs"
    by (simp only: first)
  also have "\<dots> = foldl handle_linked st (evs @ evs)"
    by simp
  also have "\<dots> = foldl handle_linked st evs"
    by (rule foldl_redelivered_before [of handle_linked, OF handle_linked_idem handle_linked_preserves]) simp_all
  finally show ?thesis by (simp add: first)
qed


section \<open>The reconciler: claims\<close>

text \<open>
  C5, as amended. A stream in which events are delivered again in place leaves the same
  tables as the stream itself, with either set of handlers. Replaying a stream twice in
  sequence leaves the same tables as replaying it once: with the Envio handlers for
  every stream; with the handlers behind \<open>handleHypnosExecutor\<close> for every stream in
  which each \<open>ExecutionRecorded\<close> names a permission that is in the store already or is
  granted earlier in the stream.
\<close>

theorem replay_idempotent:
  "envio_replay ctx (evs @ evs) = envio_replay ctx evs
   \<and> envio_replay ctx (redelivered nevs) = envio_replay ctx (map snd nevs)
   \<and> replay st (redelivered nevs) = replay st (map snd nevs)
   \<and> (causal (dom (st_Permission st)) evs \<longrightarrow> replay st (evs @ evs) = replay st evs)"
proof (intro conjI impI)
  show "envio_replay ctx (evs @ evs) = envio_replay ctx evs"
    unfolding envio_replay_def
    by (rule foldl_redelivered_before [of envio_handle, OF envio_handle_idem envio_handle_preserves])
      simp_all
  show "envio_replay ctx (redelivered nevs) = envio_replay ctx (map snd nevs)"
    unfolding envio_replay_def
    by (rule foldl_redelivered_in_place [of envio_handle, OF envio_handle_idem])
  show "replay st (redelivered nevs) = replay st (map snd nevs)"
    unfolding replay_def
    by (rule foldl_redelivered_in_place [of handleHypnosExecutor, OF handleHypnosExecutor_idem])
next
  assume "causal (dom (st_Permission st)) evs"
  then show "replay st (evs @ evs) = replay st evs"
    by (rule replay_twice_causal)
qed

theorem replay_idempotent_witness:
  "causal (dom (st_Permission empty_store)) ordered_stream
   \<and> replay empty_store (ordered_stream @ ordered_stream) = replay empty_store ordered_stream
   \<and> envio_replay empty_context (disordered_stream @ disordered_stream)
       = envio_replay empty_context disordered_stream
   \<and> replay empty_store (redelivered [(1, recorded_log), (0, granted_log), (2, revoked_log)])
       = replay empty_store [recorded_log, granted_log, revoked_log]"
proof -
  have ordered: "causal (dom (st_Permission empty_store)) ordered_stream"
    by (simp add: empty_store_def ordered_stream_def granted_log_def recorded_log_def
        used_log_def revoked_log_def)
  from replay_idempotent [where st = empty_store and evs = ordered_stream] ordered
  have "replay empty_store (ordered_stream @ ordered_stream) = replay empty_store ordered_stream"
    by blast
  moreover from replay_idempotent [where ctx = empty_context and evs = disordered_stream]
  have "envio_replay empty_context (disordered_stream @ disordered_stream)
       = envio_replay empty_context disordered_stream"
    by blast
  moreover from replay_idempotent [where st = empty_store
      and nevs = "[(1, recorded_log), (0, granted_log), (2, revoked_log)]"]
  have "replay empty_store (redelivered [(1, recorded_log), (0, granted_log), (2, revoked_log)])
       = replay empty_store [recorded_log, granted_log, revoked_log]"
    by simp
  ultimately show ?thesis using ordered by blast
qed

text \<open>
  C5 as stated fails for the handlers behind \<open>handleHypnosExecutor\<close>: replayed once from
  the empty store, the stream with the execution before the grant leaves no Execution row;
  replayed twice, it leaves one, the second pass finding the permission the first pass
  stored.
\<close>

theorem replay_twice_counterexample:
  "st_Execution (replay empty_store disordered_stream) ''0xe1'' = None
   \<and> st_Execution (replay empty_store (disordered_stream @ disordered_stream)) ''0xe1'' \<noteq> None"
  by (simp add: replay_def empty_store_def disordered_stream_def granted_log_def recorded_log_def
      handler_defs Let_def)




end
